theory Spec2Isabelle
  imports Main "HOL-Library.Word" "HOL-Library.Sublist" "HOL-Library.AList" "HOL-Library.Multiset"
begin

section \<open>Bytes, paths and the file system\<close>

text \<open>
  The programs of the repository act on the file system, read a passphrase, draw random
  bytes and call the libraries \<^verbatim>\<open>cryptography\<close>, \<^verbatim>\<open>hashlib\<close>,
  \<^verbatim>\<open>tarfile\<close>, \<^verbatim>\<open>pyzipper\<close> and \<^verbatim>\<open>pathlib\<close>. The file
  system is explicit state: every operation takes it and returns it, together with the value
  or the exception (\<open>Inl\<close>). What the libraries compute is a parameter (\<open>lib\<close>), what
  the surroundings of a run provide is a parameter (\<open>env\<close>).
\<close>

type_synonym bytes = "8 word list"

text \<open>
  A location of the file system: rooted at \<^verbatim>\<open>/\<close> or relative to the working
  directory, with its names. It is what the operating system resolves a path to; the file
  system is keyed by locations. A name \<^verbatim>\<open>..\<close> and symbolic links are not resolved,
  and a relative location is not identified with an absolute one.
\<close>

datatype path = Abs "string list" | Rel "string list"

datatype node = File bytes | Dir

type_synonym fs = "(path \<times> node) list"

datatype error =
    FileNotFoundError | FileExistsError | IsADirectoryError | NotADirectoryError
  | SameFileError | OSError | InvalidTag | EOFError | RuntimeError
  | ValueError string | KeyError string | NameError string

datatype io_op = OpRead | OpWrite | OpList | OpMkdir

fun names :: "path \<Rightarrow> string list" where
  "names (Abs ns) = ns"
| "names (Rel ns) = ns"

text \<open>\<^verbatim>\<open>Path.parts\<close>: the root is the first part of an absolute path.\<close>

fun parts :: "path \<Rightarrow> string list" where
  "parts (Abs ns) = ''/'' # ns"
| "parts (Rel ns) = ns"

text \<open>\<^verbatim>\<open>Path.parent\<close>: the root and \<^verbatim>\<open>.\<close> are their own parents.\<close>

fun parent :: "path \<Rightarrow> path" where
  "parent (Abs ns) = Abs (butlast ns)"
| "parent (Rel ns) = Rel (butlast ns)"

text \<open>\<^verbatim>\<open>a / b\<close> and \<^verbatim>\<open>os.path.join(a, b)\<close>: an absolute right operand replaces the left one.\<close>

fun joinpath :: "path \<Rightarrow> path \<Rightarrow> path" where
  "joinpath a (Abs ns) = Abs ns"
| "joinpath (Abs ms) (Rel ns) = Abs (ms @ ns)"
| "joinpath (Rel ms) (Rel ns) = Rel (ms @ ns)"

text \<open>\<^verbatim>\<open>os.path.basename\<close>.\<close>

definition basename :: "path \<Rightarrow> string" where
  "basename p = (if names p = [] then [] else last (names p))"

text \<open>\<open>under d p\<close>: \<open>p\<close> is \<open>d\<close> or lies below it.\<close>

fun under :: "path \<Rightarrow> path \<Rightarrow> bool" where
  "under (Abs d) (Abs p) = prefix d p"
| "under (Rel d) (Rel p) = prefix d p"
| "under (Abs d) (Rel p) = False"
| "under (Rel d) (Abs p) = False"

text \<open>\<^verbatim>\<open>p.relative_to(base)\<close> raises \<^verbatim>\<open>ValueError\<close> when \<open>p\<close> is not under \<open>base\<close>.\<close>

definition relative_to :: "path \<Rightarrow> path \<Rightarrow> error + path" where
  "relative_to p base =
     (if under base p then Inr (Rel (drop (length (names base)) (names p)))
      else Inl (ValueError ''is not in the subpath of''))"

text \<open>
  A \<^verbatim>\<open>pathlib.Path\<close> value, as Python holds and compares it. POSIX keeps a root
  of exactly two slashes apart from the root \<^verbatim>\<open>/\<close>, and so does pathlib:
  \<^verbatim>\<open>Path('//x') != Path('/x')\<close>. The operating system resolves both to the same
  location (\<open>os_path\<close>), so one file can be held under two path values.
\<close>

datatype pypath = Plain path | TwoSlashes "string list"

fun os_path :: "pypath \<Rightarrow> path" where
  "os_path (Plain p) = p"
| "os_path (TwoSlashes ns) = Abs ns"

text \<open>\<^verbatim>\<open>Path.parts\<close>, the operator \<^verbatim>\<open>/\<close> and \<^verbatim>\<open>relative_to\<close> of path values.\<close>

fun pparts :: "pypath \<Rightarrow> string list" where
  "pparts (Plain p) = parts p"
| "pparts (TwoSlashes ns) = ''//'' # ns"

fun pjoin :: "pypath \<Rightarrow> pypath \<Rightarrow> pypath" where
  "pjoin a (TwoSlashes ns) = TwoSlashes ns"
| "pjoin a (Plain (Abs ns)) = Plain (Abs ns)"
| "pjoin (Plain p) (Plain (Rel ns)) = Plain (joinpath p (Rel ns))"
| "pjoin (TwoSlashes ms) (Plain (Rel ns)) = TwoSlashes (ms @ ns)"

fun prelative_to :: "pypath \<Rightarrow> pypath \<Rightarrow> error + path" where
  "prelative_to (Plain p) (Plain base) = relative_to p base"
| "prelative_to (TwoSlashes ns) (TwoSlashes ms) =
     (if prefix ms ns then Inr (Rel (drop (length ms) ns))
      else Inl (ValueError ''is not in the subpath of''))"
| "prelative_to (Plain p) (TwoSlashes ms) = Inl (ValueError ''is not in the subpath of'')"
| "prelative_to (TwoSlashes ns) (Plain base) = Inl (ValueError ''is not in the subpath of'')"

text \<open>
  \<^verbatim>\<open>Path(s)\<close> of a string: split at \<^verbatim>\<open>/\<close>, drop empty names and \<^verbatim>\<open>.\<close>.
  Exactly two leading slashes make the root \<^verbatim>\<open>//\<close>, any other number of leading
  slashes the root \<^verbatim>\<open>/\<close>.
\<close>

fun split_slash :: "string \<Rightarrow> string \<Rightarrow> string list" where
  "split_slash cur [] = [cur]"
| "split_slash cur (c # cs) =
     (if c = CHR ''/'' then cur # split_slash [] cs else split_slash (cur @ [c]) cs)"

definition Path :: "string \<Rightarrow> pypath" where
  "Path s =
     (let ns = filter (\<lambda>n. n \<noteq> [] \<and> n \<noteq> ''.'') (split_slash [] s)
      in if take 2 s = ''//'' \<and> take 3 s \<noteq> ''///'' then TwoSlashes ns
         else if s \<noteq> [] \<and> hd s = CHR ''/'' then Plain (Abs ns)
         else Plain (Rel ns))"

text \<open>A string handed to the operating system (\<^verbatim>\<open>os.path\<close>, \<^verbatim>\<open>open\<close>).\<close>

definition os_location :: "string \<Rightarrow> path" where
  "os_location s = os_path (Path s)"

subsection \<open>Nodes\<close>

definition node_at :: "fs \<Rightarrow> path \<Rightarrow> node option" where
  "node_at fs p = map_of fs p"

definition put_node :: "fs \<Rightarrow> path \<Rightarrow> node \<Rightarrow> fs" where
  "put_node fs p n = AList.update p n fs"

definition exists_path :: "fs \<Rightarrow> path \<Rightarrow> bool" where
  "exists_path fs p = (node_at fs p \<noteq> None)"

definition is_file :: "fs \<Rightarrow> path \<Rightarrow> bool" where
  "is_file fs p = (case node_at fs p of Some (File b) \<Rightarrow> True | _ \<Rightarrow> False)"

definition is_dir :: "fs \<Rightarrow> path \<Rightarrow> bool" where
  "is_dir fs p = (node_at fs p = Some Dir)"

subsection \<open>The surroundings of a run and the libraries\<close>

text \<open>
  \<open>io_fault\<close> injects the failures that the model of the file system cannot foresee
  (permissions, a full disk, an I/O error): the operation on that path raises
  \<^verbatim>\<open>OSError\<close>. Removing an existing directory tree is taken to succeed.
\<close>

record env =
  home :: path
  user_home :: "string \<Rightarrow> path option"
  histfile :: "string option"
  getpass_input :: "string list"
  urandom :: "nat \<Rightarrow> nat \<Rightarrow> 8 word"
  now :: string
  io_fault :: "io_op \<Rightarrow> path \<Rightarrow> bool"

record lib =
  sha256 :: "bytes \<Rightarrow> bytes"
  aesgcm_encrypt :: "bytes \<Rightarrow> bytes \<Rightarrow> bytes \<Rightarrow> bytes"
  aesgcm_decrypt :: "bytes \<Rightarrow> bytes \<Rightarrow> bytes \<Rightarrow> error + bytes"
  tar_bytes :: "(path \<times> bytes) list \<Rightarrow> bool \<Rightarrow> bytes"
  zip_bytes :: "bytes \<Rightarrow> (string \<times> bytes) list \<Rightarrow> bytes"
  glob :: "fs \<Rightarrow> pypath \<Rightarrow> string \<Rightarrow> error + pypath list"
  rglob :: "fs \<Rightarrow> pypath \<Rightarrow> string \<Rightarrow> error + pypath list"

text \<open>\<^verbatim>\<open>os.urandom(n)\<close>, at the \<open>call\<close>-th draw of the run: \<open>n\<close> bytes.\<close>

definition os_urandom :: "env \<Rightarrow> nat \<Rightarrow> nat \<Rightarrow> bytes" where
  "os_urandom e call n = map (urandom e call) [0..<n]"

text \<open>\<^verbatim>\<open>str.encode()\<close>: a string is held as its UTF-8 bytes.\<close>

definition encode :: "string \<Rightarrow> bytes" where
  "encode s = map (\<lambda>c. of_nat (of_char c)) s"

subsection \<open>File operations\<close>

text \<open>\<^verbatim>\<open>open(p, 'rb')\<close> followed by \<^verbatim>\<open>read()\<close> of the open file is split in two:
  opening fails on a missing file or a directory; the content is read when the source reads.\<close>

definition open_rb :: "env \<Rightarrow> fs \<Rightarrow> path \<Rightarrow> error + unit" where
  "open_rb e fs p =
     (if io_fault e OpRead p then Inl OSError
      else case node_at fs p of
             None \<Rightarrow> Inl FileNotFoundError
           | Some Dir \<Rightarrow> Inl IsADirectoryError
           | Some (File b) \<Rightarrow> Inr ())"

definition read_bytes :: "fs \<Rightarrow> path \<Rightarrow> bytes" where
  "read_bytes fs p = (case node_at fs p of Some (File b) \<Rightarrow> b | _ \<Rightarrow> [])"

text \<open>\<^verbatim>\<open>open(p, 'wb')\<close> creates the file or truncates it to empty.\<close>

definition open_wb :: "env \<Rightarrow> fs \<Rightarrow> path \<Rightarrow> error + fs" where
  "open_wb e fs p =
     (if io_fault e OpWrite p then Inl OSError
      else if node_at fs p = Some Dir then Inl IsADirectoryError
      else case node_at fs (parent p) of
             None \<Rightarrow> Inl FileNotFoundError
           | Some (File b) \<Rightarrow> Inl NotADirectoryError
           | Some Dir \<Rightarrow> Inr (put_node fs p (File [])))"

text \<open>\<^verbatim>\<open>shutil.rmtree(p)\<close>.\<close>

definition rmtree :: "fs \<Rightarrow> path \<Rightarrow> fs \<times> (error + unit)" where
  "rmtree fs p =
     (case node_at fs p of
        None \<Rightarrow> (fs, Inl FileNotFoundError)
      | Some (File b) \<Rightarrow> (fs, Inl NotADirectoryError)
      | Some Dir \<Rightarrow> (filter (\<lambda>(q, n). \<not> under p q) fs, Inr ()))"

text \<open>\<^verbatim>\<open>os.mkdir(p)\<close>.\<close>

definition os_mkdir :: "env \<Rightarrow> fs \<Rightarrow> path \<Rightarrow> error + fs" where
  "os_mkdir e fs p =
     (if io_fault e OpMkdir p then Inl OSError
      else if node_at fs p \<noteq> None then Inl FileExistsError
      else case node_at fs (parent p) of
             None \<Rightarrow> Inl FileNotFoundError
           | Some (File b) \<Rightarrow> Inl NotADirectoryError
           | Some Dir \<Rightarrow> Inr (put_node fs p Dir))"

text \<open>
  \<^verbatim>\<open>Path.mkdir(parents=False, exist_ok=...)\<close>: \<^verbatim>\<open>os.mkdir\<close>, where an
  \<^verbatim>\<open>OSError\<close> other than \<^verbatim>\<open>FileNotFoundError\<close> is swallowed when \<^verbatim>\<open>exist_ok\<close>
  holds and the path is a directory.
\<close>

definition mkdir_leaf :: "env \<Rightarrow> fs \<Rightarrow> path \<Rightarrow> bool \<Rightarrow> fs \<times> (error + unit)" where
  "mkdir_leaf e fs p exist_ok =
     (case os_mkdir e fs p of
        Inr fs' \<Rightarrow> (fs', Inr ())
      | Inl err \<Rightarrow>
          if err = FileNotFoundError then (fs, Inl err)
          else if \<not> exist_ok \<or> \<not> is_dir fs p then (fs, Inl err)
          else (fs, Inr ()))"

text \<open>
  \<^verbatim>\<open>Path.mkdir(parents=True, exist_ok=...)\<close> (and \<^verbatim>\<open>os.makedirs\<close>): on
  \<^verbatim>\<open>FileNotFoundError\<close> the parent is made first, with \<^verbatim>\<open>exist_ok=True\<close>, and
  the directory itself is then made without \<^verbatim>\<open>parents\<close>.
\<close>

function mkdir_parents :: "env \<Rightarrow> fs \<Rightarrow> path \<Rightarrow> bool \<Rightarrow> fs \<times> (error + unit)" where
  "mkdir_parents e fs p exist_ok =
     (case os_mkdir e fs p of
        Inr fs' \<Rightarrow> (fs', Inr ())
      | Inl err \<Rightarrow>
          if err = FileNotFoundError then
            (if parent p = p then (fs, Inl err)
             else (case mkdir_parents e fs (parent p) True of
                     (fs1, Inl err1) \<Rightarrow> (fs1, Inl err1)
                   | (fs1, Inr u) \<Rightarrow> mkdir_leaf e fs1 p exist_ok))
          else if \<not> exist_ok \<or> \<not> is_dir fs p then (fs, Inl err)
          else (fs, Inr ()))"
  by pat_completeness auto
termination
proof (relation "measure (\<lambda>(e, fs, p, x). length (names p))")
  show "wf (measure (\<lambda>(e, fs, p, x). length (names p)))" by simp
next
  fix e :: "'a env_scheme" and fs :: fs and p :: path and exist_ok :: bool and a :: error
  assume "parent p \<noteq> p"
  then have "names p \<noteq> []" by (cases p) auto
  then have "length (names (parent p)) < length (names p)" by (cases p) auto
  then show "((e, fs, parent p, True), (e, fs, p, exist_ok))
      \<in> measure (\<lambda>(e, fs, p, x). length (names p))" by simp
qed

declare mkdir_parents.simps [simp del]

definition Path_mkdir :: "env \<Rightarrow> fs \<Rightarrow> path \<Rightarrow> bool \<Rightarrow> bool \<Rightarrow> fs \<times> (error + unit)" where
  "Path_mkdir e fs p parents exist_ok =
     (if parents then mkdir_parents e fs p exist_ok else mkdir_leaf e fs p exist_ok)"

text \<open>
  \<^verbatim>\<open>shutil.copy2(src, dst)\<close>: into \<open>dst\<close> when it is a directory; returns the
  path written.
\<close>

definition copy2 :: "env \<Rightarrow> fs \<Rightarrow> path \<Rightarrow> path \<Rightarrow> fs \<times> (error + path)" where
  "copy2 e fs src dst =
     (let dst' = (if is_dir fs dst then joinpath dst (Rel [basename src]) else dst)
      in if src = dst' \<and> exists_path fs src then (fs, Inl SameFileError)
         else case open_rb e fs src of
                Inl err \<Rightarrow> (fs, Inl err)
              | Inr u \<Rightarrow>
                  (case open_wb e fs dst' of
                     Inl err \<Rightarrow> (fs, Inl err)
                   | Inr fs1 \<Rightarrow> (put_node fs1 dst' (File (read_bytes fs1 src)), Inr dst')))"

section \<open>encryptor.py\<close>

record FileEncryptor =
  key :: bytes

definition FileEncryptor_init :: "lib \<Rightarrow> string \<Rightarrow> FileEncryptor" where
  "FileEncryptor_init L passphrase = \<lparr> key = sha256 L (encode passphrase) \<rparr>"

text \<open>
  \<^verbatim>\<open>encrypt_file\<close>: both files are opened (the output is truncated), the nonce is
  written, then the input is read, encrypted and written.
\<close>

definition encrypt_file ::
  "lib \<Rightarrow> env \<Rightarrow> FileEncryptor \<Rightarrow> nat \<Rightarrow> fs \<Rightarrow> path \<Rightarrow> path \<Rightarrow> fs \<times> (error + unit)" where
  "encrypt_file L e self call fs input_file_path output_file_path =
     (let nonce = os_urandom e call 12
      in case open_rb e fs input_file_path of
           Inl err \<Rightarrow> (fs, Inl err)
         | Inr u \<Rightarrow>
             (case open_wb e fs output_file_path of
                Inl err \<Rightarrow> (fs, Inl err)
              | Inr fs1 \<Rightarrow>
                  (let plaintext = read_bytes fs1 input_file_path;
                       ciphertext = aesgcm_encrypt L (key self) nonce plaintext
                   in (put_node fs1 output_file_path (File (nonce @ ciphertext)), Inr ()))))"

text \<open>
  \<^verbatim>\<open>decrypt_file\<close>: both files are opened (the output is truncated) before the
  nonce and the ciphertext are read and the tag is checked; an exception of
  \<^verbatim>\<open>AESGCM.decrypt\<close> leaves the with-block with nothing written.
\<close>

definition decrypt_file ::
  "lib \<Rightarrow> env \<Rightarrow> FileEncryptor \<Rightarrow> fs \<Rightarrow> path \<Rightarrow> path \<Rightarrow> fs \<times> (error + unit)" where
  "decrypt_file L e self fs input_file_path output_file_path =
     (case open_rb e fs input_file_path of
        Inl err \<Rightarrow> (fs, Inl err)
      | Inr u \<Rightarrow>
          (case open_wb e fs output_file_path of
             Inl err \<Rightarrow> (fs, Inl err)
           | Inr fs1 \<Rightarrow>
               (let nonce = take 12 (read_bytes fs1 input_file_path);
                    ciphertext = drop 12 (read_bytes fs1 input_file_path)
                in case aesgcm_decrypt L (key self) nonce ciphertext of
                     Inl err \<Rightarrow> (fs1, Inl err)
                   | Inr plaintext \<Rightarrow> (put_node fs1 output_file_path (File plaintext), Inr ()))))"

section \<open>archiver.py\<close>

record Archiver =
  archiver_format :: string

definition Archiver_init :: "string \<Rightarrow> error + Archiver" where
  "Archiver_init fmt =
     (if fmt \<notin> set [''tar.gz'', ''zip''] then Inl (ValueError ''Unsupported archive format. Choose 'tar.gz' or 'zip'.'')
      else Inr \<lparr> archiver_format = fmt \<rparr>)"

text \<open>
  \<^verbatim>\<open>tar.add(file_path, arcname=arcname)\<close>: the members one call adds, by name and
  content. A regular file is one member; a directory is added with all the files below it.
\<close>

definition tar_add :: "env \<Rightarrow> fs \<Rightarrow> path \<Rightarrow> path \<Rightarrow> error + (path \<times> bytes) list" where
  "tar_add e fs file_path arcname =
     (if io_fault e OpRead file_path then Inl OSError
      else case node_at fs file_path of
             None \<Rightarrow> Inl FileNotFoundError
           | Some (File b) \<Rightarrow> Inr [(arcname, b)]
           | Some Dir \<Rightarrow>
               Inr (concat (map (\<lambda>(q, n). case n of
                       File b \<Rightarrow>
                         if under file_path q
                         then [(joinpath arcname (Rel (drop (length (names file_path)) (names q))), b)]
                         else []
                     | Dir \<Rightarrow> []) fs)))"

text \<open>
  The loop of \<^verbatim>\<open>compress_files\<close> inside \<^verbatim>\<open>with tarfile.open(...) as tar\<close>. The
  archive is the file at \<open>out\<close> from the moment it is opened: \<open>tar_bytes L entries False\<close>
  is the content of an archive that holds \<open>entries\<close> and is not closed yet,
  \<open>tar_bytes L entries True\<close> the closed archive. An exception leaves the with-block
  with the file as it is.
\<close>

fun tar_add_all ::
  "lib \<Rightarrow> env \<Rightarrow> fs \<Rightarrow> path \<Rightarrow> path \<Rightarrow> path list \<Rightarrow> (path \<times> bytes) list \<Rightarrow> fs \<times> (error + unit)" where
  "tar_add_all L e fs out staging_area [] entries =
     (put_node fs out (File (tar_bytes L entries True)), Inr ())"
| "tar_add_all L e fs out staging_area (file_path # rest) entries =
     (case relative_to file_path staging_area of
        Inl err \<Rightarrow> (fs, Inl err)
      | Inr arcname \<Rightarrow>
          (case tar_add e fs file_path arcname of
             Inl err \<Rightarrow> (fs, Inl err)
           | Inr members \<Rightarrow>
               tar_add_all L e (put_node fs out (File (tar_bytes L (entries @ members) False)))
                 out staging_area rest (entries @ members)))"

definition compress_files ::
  "lib \<Rightarrow> env \<Rightarrow> Archiver \<Rightarrow> fs \<Rightarrow> path list \<Rightarrow> path \<Rightarrow> path \<Rightarrow> fs \<times> (error + unit)" where
  "compress_files L e self fs files_to_archive archive_path_output staging_area =
     (if archiver_format self = ''tar.gz'' then
        (case open_wb e fs archive_path_output of
           Inl err \<Rightarrow> (fs, Inl err)
         | Inr fs0 \<Rightarrow>
             tar_add_all L e (put_node fs0 archive_path_output (File (tar_bytes L [] False)))
               archive_path_output staging_area files_to_archive [])
      else (fs, Inr ()))"

section \<open>config.py\<close>

text \<open>A rule of \<^verbatim>\<open>files_to_include\<close>: a dictionary, each key present or not.\<close>

record rule =
  rule_type :: "string option"
  rule_path :: "string option"
  patterns :: "string list option"
  recursive :: "bool option"
  enabled :: "bool option"

text \<open>
  The keys of the dictionary that \<^verbatim>\<open>BackupManager\<close> builds, and the further keys of
  \<^verbatim>\<open>DEFAULT_CONFIG\<close> that a loaded \<^verbatim>\<open>BackupConfig\<close> has.
\<close>

record config_data =
  backup_destination_path :: string
  encryption_passphrase_prompt :: bool
  temporary_staging_path :: string
  archive_format :: string
  files_to_include :: "rule list"

record settings = config_data +
  encryption_enabled :: bool
  encryption_key_path :: "string option"
  log_file_path :: string
  log_level :: string

text \<open>
  A \<^verbatim>\<open>BackupConfig\<close> after \<^verbatim>\<open>_load_and_merge_config\<close>; reading and merging the
  JSON file is outside the model, so the loaded settings are any value of the record.
\<close>

record BackupConfig =
  config_file_path :: path
  settings :: settings

text \<open>\<^verbatim>\<open>Path.expanduser\<close>.\<close>

definition expanduser :: "env \<Rightarrow> pypath \<Rightarrow> error + pypath" where
  "expanduser e p =
     (case p of
        TwoSlashes ns \<Rightarrow> Inr p
      | Plain (Abs ns) \<Rightarrow> Inr p
      | Plain (Rel []) \<Rightarrow> Inr p
      | Plain (Rel (n # ns)) \<Rightarrow>
          if n = ''~'' then Inr (Plain (joinpath (home e) (Rel ns)))
          else if n \<noteq> [] \<and> hd n = CHR ''~'' then
            (case user_home e (tl n) of
               None \<Rightarrow> Inl RuntimeError
             | Some h \<Rightarrow> Inr (Plain (joinpath h (Rel ns))))
          else Inr p)"


definition get_temporary_staging_path :: "env \<Rightarrow> BackupConfig \<Rightarrow> error + pypath" where
  "get_temporary_staging_path e self = expanduser e (Path (temporary_staging_path (settings self)))"


definition get_files_to_include_rules :: "BackupConfig \<Rightarrow> rule list" where
  "get_files_to_include_rules self = files_to_include (settings self)"

section \<open>discoverer.py\<close>

text \<open>
  The discoverer holds its configuration provider, of which it reads
  \<^verbatim>\<open>get_setting("files_to_include")\<close>; \<^verbatim>\<open>BackupManager\<close> passes itself, so the
  provider is the manager's dictionary.
\<close>

record FileDiscoverer =
  config :: config_data
  home_dir :: path

definition FileDiscoverer_init :: "env \<Rightarrow> config_data \<Rightarrow> FileDiscoverer" where
  "FileDiscoverer_init e cfg = \<lparr> config = cfg, home_dir = home e \<rparr>"

definition common_files :: "string list" where
  "common_files =
     [''.bash_history'', ''.zsh_history'', ''.fish_history'',
      ''.python_history'', ''.node_repl_history'']"

definition get_shell_history_files :: "env \<Rightarrow> fs \<Rightarrow> FileDiscoverer \<Rightarrow> pypath list" where
  "get_shell_history_files e fs self =
     (let history_files =
            filter (\<lambda>fpath. exists_path fs (os_path fpath) \<and> is_file fs (os_path fpath))
              (map (\<lambda>fname. pjoin (Plain (home_dir self)) (Path fname)) common_files)
      in case histfile e of
           None \<Rightarrow> history_files
         | Some histfile_env \<Rightarrow>
             if histfile_env = [] then history_files
             else (let fpath_env = Path histfile_env
                   in if exists_path fs (os_path fpath_env) \<and> is_file fs (os_path fpath_env)
                         \<and> fpath_env \<notin> set history_files
                      then history_files @ [fpath_env] else history_files))"

text \<open>
  \<^verbatim>\<open>os.listdir\<close>: the entries directly inside a directory, as locations;
  \<^verbatim>\<open>Path.iterdir\<close>: the same entries, each as the directory's path value joined
  with the entry's name.
\<close>

definition iterdir :: "env \<Rightarrow> fs \<Rightarrow> path \<Rightarrow> error + path list" where
  "iterdir e fs d =
     (if io_fault e OpList d then Inl OSError
      else if \<not> is_dir fs d then Inl NotADirectoryError
      else Inr (remdups (filter (\<lambda>q. parent q = d \<and> q \<noteq> d) (map fst fs))))"

definition Path_iterdir :: "env \<Rightarrow> fs \<Rightarrow> pypath \<Rightarrow> error + pypath list" where
  "Path_iterdir e fs d =
     (case iterdir e fs (os_path d) of
        Inl err \<Rightarrow> Inl err
      | Inr items \<Rightarrow> Inr (map (\<lambda>q. pjoin d (Plain (Rel [basename q]))) items))"

definition get_ssh_key_files :: "env \<Rightarrow> fs \<Rightarrow> FileDiscoverer \<Rightarrow> error + pypath list" where
  "get_ssh_key_files e fs self =
     (let ssh_dir = pjoin (Plain (home_dir self)) (Path ''.ssh'')
      in if is_dir fs (os_path ssh_dir) then
           (case Path_iterdir e fs ssh_dir of
              Inl err \<Rightarrow> Inl err
            | Inr items \<Rightarrow> Inr (filter (\<lambda>item. is_file fs (os_path item)) items))
         else Inr [])"

definition get_gpg_key_files :: "env \<Rightarrow> fs \<Rightarrow> FileDiscoverer \<Rightarrow> error + pypath list" where
  "get_gpg_key_files e fs self =
     (let gpg_dir = pjoin (Plain (home_dir self)) (Path ''.gpg'')
      in if is_dir fs (os_path gpg_dir) then
           (case Path_iterdir e fs gpg_dir of
              Inl err \<Rightarrow> Inl err
            | Inr items \<Rightarrow> Inr (filter (\<lambda>item. is_file fs (os_path item)) items))
         else Inr [])"

text \<open>The loop over the patterns of a \<^verbatim>\<open>custom_directory\<close> rule: all the matches.\<close>

fun glob_patterns :: "lib \<Rightarrow> fs \<Rightarrow> pypath \<Rightarrow> bool \<Rightarrow> string list \<Rightarrow> error + pypath list" where
  "glob_patterns L fs custom_d rec [] = Inr []"
| "glob_patterns L fs custom_d rec (pattern # ps) =
     (case (if rec then rglob L fs custom_d pattern else glob L fs custom_d pattern) of
        Inl err \<Rightarrow> Inl err
      | Inr found \<Rightarrow>
          (case glob_patterns L fs custom_d rec ps of
             Inl err \<Rightarrow> Inl err
           | Inr others \<Rightarrow> Inr (found @ others)))"

text \<open>
  One pass of the loop of \<^verbatim>\<open>discover_all_files\<close>: the paths that the rule adds to
  the set, or the exception it raises. A rule of another type adds nothing; the key
  \<^verbatim>\<open>enabled\<close> is not read.
\<close>

definition rule_files :: "lib \<Rightarrow> env \<Rightarrow> fs \<Rightarrow> FileDiscoverer \<Rightarrow> rule \<Rightarrow> error + pypath list" where
  "rule_files L e fs self r =
     (case rule_type r of
        None \<Rightarrow> Inl (KeyError ''type'')
      | Some t \<Rightarrow>
          if t = ''shell_history'' then Inr (get_shell_history_files e fs self)
          else if t = ''ssh_keys'' then get_ssh_key_files e fs self
          else if t = ''gpg_keys'' then get_gpg_key_files e fs self
          else if t = ''custom_path'' then
            (case rule_path r of
               None \<Rightarrow> Inl (KeyError ''path'')
             | Some s \<Rightarrow>
                 (case expanduser e (Path s) of
                    Inl err \<Rightarrow> Inl err
                  | Inr custom_p \<Rightarrow>
                      if exists_path fs (os_path custom_p) \<and> is_file fs (os_path custom_p)
                      then Inr [custom_p]
                      else Inr []))
          else if t = ''custom_directory'' then
            (case rule_path r of
               None \<Rightarrow> Inl (KeyError ''path'')
             | Some s \<Rightarrow>
                 (case expanduser e (Path s) of
                    Inl err \<Rightarrow> Inl err
                  | Inr custom_d \<Rightarrow>
                      if is_dir fs (os_path custom_d) then
                        glob_patterns L fs custom_d
                          (case recursive r of None \<Rightarrow> True | Some b \<Rightarrow> b)
                          (case patterns r of None \<Rightarrow> [''*''] | Some ps \<Rightarrow> ps)
                      else Inr []))
          else Inr [])"

text \<open>
  The Python set \<^verbatim>\<open>all_files_to_backup\<close> is a list without repeated path value;
  \<^verbatim>\<open>update\<close> inserts the elements that are not in it yet. (The order in which Python
  iterates a set is not specified; the properties below speak of the elements only.)
\<close>

fun discover_loop ::
  "lib \<Rightarrow> env \<Rightarrow> fs \<Rightarrow> FileDiscoverer \<Rightarrow> rule list \<Rightarrow> pypath list \<Rightarrow> error + pypath list" where
  "discover_loop L e fs self [] all_files_to_backup = Inr all_files_to_backup"
| "discover_loop L e fs self (r # rules) all_files_to_backup =
     (case rule_files L e fs self r of
        Inl err \<Rightarrow> Inl err
      | Inr found \<Rightarrow> discover_loop L e fs self rules (List.union found all_files_to_backup))"

definition discover_all_files :: "lib \<Rightarrow> env \<Rightarrow> fs \<Rightarrow> FileDiscoverer \<Rightarrow> error + pypath list" where
  "discover_all_files L e fs self =
     (case discover_loop L e fs self (files_to_include (config self)) [] of
        Inl err \<Rightarrow> Inl err
      | Inr all_files_to_backup \<Rightarrow>
          Inr (filter (\<lambda>f. is_file fs (os_path f)) all_files_to_backup))"

section \<open>manager.py\<close>

record BackupManager =
  config_data :: config_data
  discoverer :: FileDiscoverer
  encryptor :: "FileEncryptor option"
  archiver :: Archiver
  staging_path :: path

definition type_rule :: "string \<Rightarrow> rule" where
  "type_rule t =
     \<lparr> rule_type = Some t, rule_path = None, patterns = None, recursive = None, enabled = None \<rparr>"

text \<open>The dictionary literal of \<^verbatim>\<open>BackupManager.__init__\<close>.\<close>

definition manager_config_data :: config_data where
  "manager_config_data =
     \<lparr> backup_destination_path = ''/tmp/my_backups/'',
       encryption_passphrase_prompt = True,
       temporary_staging_path = ''/tmp/my_backup_staging/'',
       archive_format = ''tar.gz'',
       files_to_include = [type_rule ''shell_history'', type_rule ''ssh_keys''] \<rparr>"

text \<open>
  The two \<^verbatim>\<open>getpass\<close> prompts answer with the first two entries of
  \<open>getpass_input\<close>; an exhausted input is \<^verbatim>\<open>EOFError\<close>.
\<close>

definition prompt_passphrase :: "env \<Rightarrow> config_data \<Rightarrow> error + string option" where
  "prompt_passphrase e cd =
     (if encryption_passphrase_prompt cd then
        (case getpass_input e of
           passphrase # confirm_passphrase # others \<Rightarrow>
             if passphrase \<noteq> confirm_passphrase
             then Inl (ValueError ''Passphrases do not match.'')
             else Inr (Some passphrase)
         | _ \<Rightarrow> Inl EOFError)
      else Inr None)"

text \<open>
  The global names bound in the module \<^verbatim>\<open>manager.py\<close>: its imports
  (\<^verbatim>\<open>Path\<close>, \<^verbatim>\<open>shutil\<close>, \<^verbatim>\<open>datetime\<close>, \<^verbatim>\<open>getpass\<close>,
  \<^verbatim>\<open>os\<close>) and its class. The imports of \<^verbatim>\<open>FileDiscoverer\<close>,
  \<^verbatim>\<open>FileEncryptor\<close> and \<^verbatim>\<open>Archiver\<close> are comments, so these names are not
  bound: evaluating one raises \<^verbatim>\<open>NameError\<close>.
\<close>

definition manager_globals :: "string list" where
  "manager_globals = [''Path'', ''shutil'', ''datetime'', ''getpass'', ''os'', ''BackupManager'']"

definition global_name :: "string \<Rightarrow> error + unit" where
  "global_name n = (if n \<in> set manager_globals then Inr () else Inl (NameError n))"

text \<open>
  \<^verbatim>\<open>BackupManager.__init__(config_path)\<close>. The argument is whatever the caller
  passes (\<^verbatim>\<open>backup_util.main\<close> passes the loaded \<^verbatim>\<open>BackupConfig\<close>, then the
  path of the configuration file); the body does not read it. The statements are those of
  the source, in its order: the dictionary, the destination directory, the discoverer, the
  prompt, the encryptor, the archiver, the staging path.
\<close>

definition BackupManager_init ::
  "lib \<Rightarrow> env \<Rightarrow> 'c \<Rightarrow> fs \<Rightarrow> fs \<times> (error + BackupManager)" where
  "BackupManager_init L e config_path fs =
     (let cd = manager_config_data
      in case Path_mkdir e fs (os_path (Path (backup_destination_path cd))) True True of
           (fs1, Inl err) \<Rightarrow> (fs1, Inl err)
         | (fs1, Inr u) \<Rightarrow>
             (case global_name ''FileDiscoverer'' of
                Inl err \<Rightarrow> (fs1, Inl err)
              | Inr u \<Rightarrow>
                  (case prompt_passphrase e cd of
                     Inl err \<Rightarrow> (fs1, Inl err)
                   | Inr passphrase \<Rightarrow>
                       (case (case passphrase of
                                None \<Rightarrow> Inr None
                              | Some p \<Rightarrow>
                                  if p \<noteq> [] then
                                    (case global_name ''FileEncryptor'' of
                                       Inl err \<Rightarrow> Inl err
                                     | Inr u \<Rightarrow> Inr (Some (FileEncryptor_init L p)))
                                  else Inr None) of
                          Inl err \<Rightarrow> (fs1, Inl err)
                        | Inr enc \<Rightarrow>
                            (case global_name ''Archiver'' of
                               Inl err \<Rightarrow> (fs1, Inl err)
                             | Inr u \<Rightarrow>
                                 (case Archiver_init (archive_format cd) of
                                    Inl err \<Rightarrow> (fs1, Inl err)
                                  | Inr a \<Rightarrow>
                                      (fs1, Inr \<lparr> config_data = cd,
                                                  discoverer = FileDiscoverer_init e cd,
                                                  encryptor = enc,
                                                  archiver = a,
                                                  staging_path =
                                                    os_path (Path (temporary_staging_path cd)) \<rparr>)))))))"

definition setup_staging_area :: "env \<Rightarrow> BackupManager \<Rightarrow> fs \<Rightarrow> fs \<times> (error + path)" where
  "setup_staging_area e self fs =
     (case (if exists_path fs (staging_path self) then rmtree fs (staging_path self)
            else (fs, Inr ())) of
        (fs1, Inl err) \<Rightarrow> (fs1, Inl err)
      | (fs1, Inr u) \<Rightarrow>
          (case Path_mkdir e fs1 (staging_path self) True False of
             (fs2, Inl err) \<Rightarrow> (fs2, Inl err)
           | (fs2, Inr u) \<Rightarrow> (fs2, Inr (staging_path self))))"

definition cleanup_staging_area :: "BackupManager \<Rightarrow> fs \<Rightarrow> fs \<times> (error + unit)" where
  "cleanup_staging_area self fs =
     (if exists_path fs (staging_path self) then rmtree fs (staging_path self)
      else (fs, Inr ()))"

text \<open>
  The location of a file inside the staging area: its path relative to the home
  directory, or, when \<^verbatim>\<open>relative_to\<close> raises, its parts without the first
  (\<^verbatim>\<open>Path(*parts[1:])\<close>).
\<close>

definition staged_dest :: "env \<Rightarrow> BackupManager \<Rightarrow> pypath \<Rightarrow> path" where
  "staged_dest e self original_file_path =
     (let relative_path =
            (case prelative_to original_file_path (Plain (home e)) of
               Inr r \<Rightarrow> r
             | Inl err \<Rightarrow> Rel (tl (pparts original_file_path)))
      in joinpath (staging_path self) relative_path)"

text \<open>
  The \<^verbatim>\<open>for\<close> loop of \<^verbatim>\<open>run_backup\<close>; \<open>i\<close> counts the files, and with them the
  draws of \<^verbatim>\<open>os.urandom\<close>.
\<close>

fun stage_files ::
  "lib \<Rightarrow> env \<Rightarrow> BackupManager \<Rightarrow> nat \<Rightarrow> fs \<Rightarrow> pypath list \<Rightarrow> path list \<Rightarrow> fs \<times> (error + path list)" where
  "stage_files L e self i fs [] staged_files_for_archive = (fs, Inr staged_files_for_archive)"
| "stage_files L e self i fs (original_file_path # rest) staged_files_for_archive =
     (let staged_file_dest_path = staged_dest e self original_file_path
      in case Path_mkdir e fs (parent staged_file_dest_path) True True of
           (fs1, Inl err) \<Rightarrow> (fs1, Inl err)
         | (fs1, Inr u) \<Rightarrow>
             (case (case encryptor self of
                      Some enc \<Rightarrow>
                        encrypt_file L e enc i fs1 (os_path original_file_path)
                          staged_file_dest_path
                    | None \<Rightarrow>
                        (case copy2 e fs1 (os_path original_file_path) staged_file_dest_path of
                           (fs2, Inl err) \<Rightarrow> (fs2, Inl err)
                         | (fs2, Inr d) \<Rightarrow> (fs2, Inr ()))) of
                (fs2, Inl err) \<Rightarrow> (fs2, Inl err)
              | (fs2, Inr u) \<Rightarrow>
                  stage_files L e self (Suc i) fs2 rest
                    (staged_files_for_archive @ [staged_file_dest_path])))"

definition final_archive_path :: "env \<Rightarrow> BackupManager \<Rightarrow> path" where
  "final_archive_path e self =
     os_path (pjoin (Path (backup_destination_path (config_data self)))
       (Path (''backup-'' @ now e @ ''.'' @ archive_format (config_data self))))"

text \<open>The body of the \<^verbatim>\<open>try\<close> block: stage every file, then write the archive.\<close>

definition backup_body ::
  "lib \<Rightarrow> env \<Rightarrow> BackupManager \<Rightarrow> fs \<Rightarrow> pypath list \<Rightarrow> fs \<times> (error + path)" where
  "backup_body L e self fs original_files =
     (case stage_files L e self 0 fs original_files [] of
        (fs1, Inl err) \<Rightarrow> (fs1, Inl err)
      | (fs1, Inr staged_files_for_archive) \<Rightarrow>
          (case compress_files L e (archiver self) fs1 staged_files_for_archive
                  (final_archive_path e self) (staging_path self) of
             (fs2, Inl err) \<Rightarrow> (fs2, Inl err)
           | (fs2, Inr u) \<Rightarrow> (fs2, Inr (final_archive_path e self))))"

text \<open>
  \<^verbatim>\<open>run_backup\<close>. The result is \<open>None\<close> for the early return "No files found to back
  up." and the path printed by "Backup successful!" otherwise. An exception raised in the
  \<^verbatim>\<open>finally\<close> block replaces the one of the body.
\<close>

definition run_backup ::
  "lib \<Rightarrow> env \<Rightarrow> BackupManager \<Rightarrow> fs \<Rightarrow> fs \<times> (error + path option)" where
  "run_backup L e self fs =
     (case discover_all_files L e fs (discoverer self) of
        Inl err \<Rightarrow> (fs, Inl err)
      | Inr original_files \<Rightarrow>
          if original_files = [] then (fs, Inr None)
          else (case setup_staging_area e self fs of
                  (fs1, Inl err) \<Rightarrow> (fs1, Inl err)
                | (fs1, Inr s) \<Rightarrow>
                    (case backup_body L e self fs1 original_files of
                       (fs2, r) \<Rightarrow>
                         (case cleanup_staging_area self fs2 of
                            (fs3, Inl err) \<Rightarrow> (fs3, Inl err)
                          | (fs3, Inr u) \<Rightarrow>
                              (fs3, case r of Inl err \<Rightarrow> Inl err | Inr a \<Rightarrow> Inr (Some a))))))"

section \<open>keyfiles\_backup.py\<close>

record KeyBackup =
  ssh_key_path :: string
  gpg_key_path :: string
  zip_password :: string
  zip_filename :: string
  kb_home_dir :: path
  temp_dir :: path

definition KeyBackup_init ::
  "env \<Rightarrow> fs \<Rightarrow> string \<Rightarrow> string \<Rightarrow> string \<Rightarrow> string \<Rightarrow> fs \<times> (error + KeyBackup)" where
  "KeyBackup_init e fs ssh gpg password filename =
     (let h = home e; t = joinpath h (os_location ''temp_keys_backup'')
      in case mkdir_parents e fs t True of
           (fs1, Inl err) \<Rightarrow> (fs1, Inl err)
         | (fs1, Inr u) \<Rightarrow>
             (fs1, Inr \<lparr> ssh_key_path = ssh, gpg_key_path = gpg, zip_password = password,
                         zip_filename = filename, kb_home_dir = h, temp_dir = t \<rparr>))"

fun prepare_loop :: "env \<Rightarrow> KeyBackup \<Rightarrow> fs \<Rightarrow> string list \<Rightarrow> fs \<times> (error + unit)" where
  "prepare_loop e self fs [] = (fs, Inr ())"
| "prepare_loop e self fs (key_path # rest) =
     (if exists_path fs (os_location key_path) then
        (case copy2 e fs (os_location key_path) (temp_dir self) of
           (fs1, Inl err) \<Rightarrow> (fs1, Inl err)
         | (fs1, Inr d) \<Rightarrow> prepare_loop e self fs1 rest)
      else prepare_loop e self fs rest)"

definition prepare_files :: "env \<Rightarrow> KeyBackup \<Rightarrow> fs \<Rightarrow> fs \<times> (error + unit)" where
  "prepare_files e self fs = prepare_loop e self fs [ssh_key_path self, gpg_key_path self]"

text \<open>
  The loop of \<^verbatim>\<open>create_encrypted_zip\<close>; leaving the with-block closes the zip
  file, which writes the directory of the members added so far.
\<close>

fun zip_write_all ::
  "lib \<Rightarrow> env \<Rightarrow> KeyBackup \<Rightarrow> fs \<Rightarrow> path \<Rightarrow> path list \<Rightarrow> (string \<times> bytes) list \<Rightarrow> fs \<times> (error + unit)" where
  "zip_write_all L e self fs zip_path [] entries =
     (put_node fs zip_path (File (zip_bytes L (encode (zip_password self)) entries)), Inr ())"
| "zip_write_all L e self fs zip_path (filepath # rest) entries =
     (if io_fault e OpRead filepath then
        (put_node fs zip_path (File (zip_bytes L (encode (zip_password self)) entries)), Inl OSError)
      else zip_write_all L e self fs zip_path rest
             (entries @ [(basename filepath, read_bytes fs filepath)]))"

definition create_encrypted_zip :: "lib \<Rightarrow> env \<Rightarrow> KeyBackup \<Rightarrow> fs \<Rightarrow> fs \<times> (error + path)" where
  "create_encrypted_zip L e self fs =
     (let zip_path = joinpath (kb_home_dir self) (os_location (zip_filename self))
      in case open_wb e fs zip_path of
           Inl err \<Rightarrow> (fs, Inl err)
         | Inr fs1 \<Rightarrow>
             (case iterdir e fs1 (temp_dir self) of
                Inl err \<Rightarrow>
                  (put_node fs1 zip_path (File (zip_bytes L (encode (zip_password self)) [])), Inl err)
              | Inr items \<Rightarrow>
                  (case zip_write_all L e self fs1 zip_path items [] of
                     (fs2, Inl err) \<Rightarrow> (fs2, Inl err)
                   | (fs2, Inr u) \<Rightarrow> (fs2, Inr zip_path))))"

definition KeyBackup_cleanup :: "KeyBackup \<Rightarrow> fs \<Rightarrow> fs \<times> (error + unit)" where
  "KeyBackup_cleanup self fs = rmtree fs (temp_dir self)"

definition KeyBackup_run_backup :: "lib \<Rightarrow> env \<Rightarrow> KeyBackup \<Rightarrow> fs \<Rightarrow> fs \<times> (error + path)" where
  "KeyBackup_run_backup L e self fs =
     (case prepare_files e self fs of
        (fs1, Inl err) \<Rightarrow> (fs1, Inl err)
      | (fs1, Inr u) \<Rightarrow>
          (case create_encrypted_zip L e self fs1 of
             (fs2, Inl err) \<Rightarrow> (fs2, Inl err)
           | (fs2, Inr zip_path) \<Rightarrow>
               (case KeyBackup_cleanup self fs2 of
                  (fs3, Inl err) \<Rightarrow> (fs3, Inl err)
                | (fs3, Inr u) \<Rightarrow> (fs3, Inr zip_path))))"

section \<open>Bit flips and the contract of the AEAD library\<close>

text \<open>Flipping bit \<open>i\<close> of a byte string (bit \<open>i mod 8\<close> of byte \<open>i div 8\<close>).\<close>

definition flip_bit_at :: "nat \<Rightarrow> bytes \<Rightarrow> bytes" where
  "flip_bit_at i bs = bs[i div 8 := flip_bit (i mod 8) (bs ! (i div 8))]"


text \<open>
  What \<^verbatim>\<open>AESGCM\<close> promises: decrypting what was encrypted under the same key and
  nonce gives the plaintext back, and a ciphertext (with its tag) in which one bit was
  flipped is rejected with \<^verbatim>\<open>InvalidTag\<close>.
\<close>

definition aead_roundtrip :: "lib \<Rightarrow> bool" where
  "aead_roundtrip L = (\<forall>k n p. aesgcm_decrypt L k n (aesgcm_encrypt L k n p) = Inr p)"

definition aead_rejects_bit_flips :: "lib \<Rightarrow> bool" where
  "aead_rejects_bit_flips L =
     (\<forall>k n p i. i < 8 * length (aesgcm_encrypt L k n p) \<longrightarrow>
        aesgcm_decrypt L k n (flip_bit_at i (aesgcm_encrypt L k n p)) = Inl InvalidTag)"


section \<open>Concrete surroundings for closed instances\<close>

text \<open>
  A stand-in for the libraries, small enough to be evaluated: the cipher doubles the
  plaintext and accepts a ciphertext whose halves agree; the archive formats concatenate
  the member contents; globbing lists the children (or all descendants) of a directory.
\<close>

definition demo_lib :: lib where
  "demo_lib = \<lparr>
     sha256 = (\<lambda>m. take 32 (m @ replicate 32 0)),
     aesgcm_encrypt = (\<lambda>k n p. p @ p),
     aesgcm_decrypt = (\<lambda>k n c.
        if even (length c) \<and> take (length c div 2) c = drop (length c div 2) c
        then Inr (take (length c div 2) c) else Inl InvalidTag),
     tar_bytes = (\<lambda>entries closed. concat (map snd entries) @ (if closed then [0] else [])),
     zip_bytes = (\<lambda>pw entries. concat (map snd entries)),
     glob = (\<lambda>fs d pat.
        Inr (map Plain [q \<leftarrow> map fst fs. parent q = os_path d \<and> q \<noteq> os_path d])),
     rglob = (\<lambda>fs d pat.
        Inr (map Plain [q \<leftarrow> map fst fs. under (os_path d) q \<and> q \<noteq> os_path d])) \<rparr>"

definition demo_env :: env where
  "demo_env = \<lparr>
     home = Abs [''home'', ''u''],
     user_home = (\<lambda>u. None),
     histfile = None,
     getpass_input = [''correct-horse'', ''correct-horse''],
     urandom = (\<lambda>call i. of_nat (12 * call + i)),
     now = ''20240101-120000'',
     io_fault = (\<lambda>op p. False) \<rparr>"

definition demo_key :: FileEncryptor where
  "demo_key = FileEncryptor_init demo_lib ''correct-horse''"

text \<open>The surroundings of a later run: the same passphrase, another random source.\<close>

definition later_env :: env where
  "later_env = demo_env \<lparr> urandom := (\<lambda>call i. of_nat (12 * call + i + 100)) \<rparr>"

definition empty_file_fs :: fs where
  "empty_file_fs = [(Abs [], Dir), (Abs [''plain''], File [])]"


text \<open>
  A file of two bytes, the file system after it was encrypted into a blob, and the one in
  which bit 100 of the blob (a bit of the ciphertext) was flipped.
\<close>

definition two_byte_fs :: fs where
  "two_byte_fs = [(Abs [], Dir), (Abs [''plain''], File [1, 2])]"

definition encrypted_fs :: fs where
  "encrypted_fs =
     fst (encrypt_file demo_lib demo_env demo_key 0 two_byte_fs (Abs [''plain'']) (Abs [''blob'']))"

definition tampered_fs :: fs where
  "tampered_fs =
     put_node encrypted_fs (Abs [''blob''])
       (File (flip_bit_at 100 (read_bytes encrypted_fs (Abs [''blob'']))))"

text \<open>
  A home directory with a shell history and two SSH key files, and the file system once
  the backup destination is made; a manager with the settings of the dictionary literal; a
  loaded configuration that differs from that dictionary in every setting; surroundings
  in which two different, or two empty, entries wait at the prompts; and surroundings whose
  \<^verbatim>\<open>HISTFILE\<close> spells the shell history with the root \<^verbatim>\<open>//\<close>.
\<close>

definition demo_fs :: fs where
  "demo_fs =
     [(Abs [], Dir), (Abs [''tmp''], Dir), (Abs [''home''], Dir), (Abs [''home'', ''u''], Dir),
      (Abs [''home'', ''u'', ''.bash_history''], File [108, 115]),
      (Abs [''home'', ''u'', ''.ssh''], Dir),
      (Abs [''home'', ''u'', ''.ssh'', ''id_rsa''], File [1, 2, 3]),
      (Abs [''home'', ''u'', ''.ssh'', ''id_rsa.pub''], File [4, 5])]"

definition fs_after_init :: fs where
  "fs_after_init = put_node demo_fs (Abs [''tmp'', ''my_backups'']) Dir"

definition demo_manager :: BackupManager where
  "demo_manager =
     \<lparr> config_data = manager_config_data,
       discoverer = \<lparr> config = manager_config_data, home_dir = Abs [''home'', ''u''] \<rparr>,
       encryptor = Some demo_key,
       archiver = \<lparr> archiver_format = ''tar.gz'' \<rparr>,
       staging_path = Abs [''tmp'', ''my_backup_staging''] \<rparr>"

definition demo_archive :: path where
  "demo_archive = Abs [''tmp'', ''my_backups'', ''backup-20240101-120000.tar.gz'']"





definition alias_env :: env where
  "alias_env = demo_env \<lparr> histfile := Some ''//home/u/.bash_history'' \<rparr>"

text \<open>What a rule contributes to the discovered set; nothing when it raises.\<close>

definition rule_set :: "lib \<Rightarrow> env \<Rightarrow> fs \<Rightarrow> FileDiscoverer \<Rightarrow> rule \<Rightarrow> pypath set" where
  "rule_set L e fs self r = (case rule_files L e fs self r of Inl err \<Rightarrow> {} | Inr found \<Rightarrow> set found)"

text \<open>
  Two discoverers over the same rules in different orders, one rule naming a file that
  another rule finds too.
\<close>

definition custom_path_rule :: "string \<Rightarrow> rule" where
  "custom_path_rule s = (type_rule ''custom_path'') \<lparr> rule_path := Some s \<rparr>"

definition demo_discoverer :: FileDiscoverer where
  "demo_discoverer =
     \<lparr> config = manager_config_data \<lparr> files_to_include :=
           [type_rule ''shell_history'', custom_path_rule ''~/.bash_history'', type_rule ''ssh_keys''] \<rparr>,
       home_dir = Abs [''home'', ''u''] \<rparr>"

definition reordered_discoverer :: FileDiscoverer where
  "reordered_discoverer =
     \<lparr> config = manager_config_data \<lparr> files_to_include :=
           [type_rule ''ssh_keys'', type_rule ''shell_history'', custom_path_rule ''~/.bash_history''] \<rparr>,
       home_dir = Abs [''home'', ''u''] \<rparr>"

text \<open>
  A \<^verbatim>\<open>KeyBackup\<close> for the SSH key of that home directory, the file system after its
  construction, and a file system in which an earlier run left a staging directory behind
  and the home directory has nothing to discover.
\<close>

definition demo_kb :: KeyBackup where
  "demo_kb =
     \<lparr> ssh_key_path = ''/home/u/.ssh/id_rsa'', gpg_key_path = ''/home/u/.gnupg/secring.gpg'',
       zip_password = ''pw'', zip_filename = ''keys_backup.zip'',
       kb_home_dir = Abs [''home'', ''u''], temp_dir = Abs [''home'', ''u'', ''temp_keys_backup''] \<rparr>"

definition fs_kb :: fs where
  "fs_kb = put_node demo_fs (Abs [''home'', ''u'', ''temp_keys_backup'']) Dir"

definition stale_fs :: fs where
  "stale_fs =
     [(Abs [], Dir), (Abs [''tmp''], Dir), (Abs [''tmp'', ''my_backups''], Dir),
      (Abs [''tmp'', ''my_backup_staging''], Dir),
      (Abs [''tmp'', ''my_backup_staging'', ''.bash_history''], File [7, 7]),
      (Abs [''home''], Dir), (Abs [''home'', ''u''], Dir)]"

text \<open>
  Surroundings in which writing one staged file fails, and in which reading it back for
  the archive fails; the files discovered in the home directory.
\<close>

definition stage_fault_env :: env where
  "stage_fault_env = demo_env \<lparr> io_fault :=
     (\<lambda>op p. op = OpWrite \<and> p = Abs [''tmp'', ''my_backup_staging'', ''.ssh'', ''id_rsa'']) \<rparr>"

definition archive_fault_env :: env where
  "archive_fault_env = demo_env \<lparr> io_fault :=
     (\<lambda>op p. op = OpRead \<and> p = Abs [''tmp'', ''my_backup_staging'', ''.ssh'', ''id_rsa'']) \<rparr>"

definition demo_files :: "pypath list" where
  "demo_files =
     [Plain (Abs [''home'', ''u'', ''.ssh'', ''id_rsa.pub'']),
      Plain (Abs [''home'', ''u'', ''.ssh'', ''id_rsa'']),
      Plain (Abs [''home'', ''u'', ''.bash_history''])]"

section \<open>Properties of the file system and of the cipher\<close>

lemma node_at_put_node: "node_at (put_node fs p n) q = (if q = p then Some n else node_at fs q)"
  by (simp add: node_at_def put_node_def update_conv')

lemma length_os_urandom: "length (os_urandom e call n) = n"
  by (simp add: os_urandom_def)

lemma flip_byte_neq: "n < 8 \<Longrightarrow> flip_bit n (w :: 8 word) \<noteq> w"
proof
  assume n: "n < 8" and eq: "flip_bit n w = w"
  have "bit (flip_bit n w) n \<longleftrightarrow> \<not> bit w n"
    using n by (simp add: bit_flip_bit_iff possible_bit_def)
  with eq show False by simp
qed

lemma flip_bit_at_nth:
  "i < 8 * length bs \<Longrightarrow> flip_bit_at i bs ! (i div 8) \<noteq> bs ! (i div 8)"
  by (simp add: flip_bit_at_def flip_byte_neq)

lemma flip_bit_at_neq: "i < 8 * length bs \<Longrightarrow> flip_bit_at i bs \<noteq> bs"
  using flip_bit_at_nth by force

lemma flip_bit_at_append_left:
  assumes "i < 8 * length a"
  shows "flip_bit_at i (a @ b) = flip_bit_at i a @ b"
proof -
  have "i div 8 < length a" using assms by simp
  then show ?thesis by (simp add: flip_bit_at_def list_update_append nth_append)
qed

lemma flip_bit_at_append_right:
  assumes "8 * length a \<le> i"
  shows "flip_bit_at i (a @ b) = a @ flip_bit_at (i - 8 * length a) b"
proof -
  have d: "(i - 8 * length a) div 8 = i div 8 - length a" using assms by simp
  have m: "(i - 8 * length a) mod 8 = i mod 8" using assms
    by (metis le_add_diff_inverse mod_mult_self4)
  have l: "length a \<le> i div 8" using assms by simp
  show ?thesis using l by (simp add: flip_bit_at_def list_update_append nth_append d m)
qed

lemma demo_roundtrip: "aead_roundtrip demo_lib"
  by (simp add: aead_roundtrip_def demo_lib_def)

lemma length_flip_bit_at: "length (flip_bit_at i bs) = length bs"
  by (simp add: flip_bit_at_def)

lemma dup_flip_detected:
  assumes "i < 8 * length (p @ p)"
  shows "take (length p) (flip_bit_at i (p @ p)) \<noteq> drop (length p) (flip_bit_at i (p @ p))"
proof (cases "i < 8 * length p")
  case True
  then show ?thesis
    using flip_bit_at_neq [of i p] by (simp add: flip_bit_at_append_left length_flip_bit_at)
next
  case False
  then have le: "8 * length p \<le> i" by simp
  have "i - 8 * length p < 8 * length p" using assms False by simp
  then show ?thesis
    using flip_bit_at_neq [of "i - 8 * length p" p]
    by (simp add: flip_bit_at_append_right [OF le])
qed

lemma demo_rejects: "aead_rejects_bit_flips demo_lib"
  using dup_flip_detected
  by (simp add: aead_rejects_bit_flips_def demo_lib_def length_flip_bit_at)

lemma encrypt_file_ok:
  assumes "encrypt_file L e self call fs src blobp = (fs1, Inr ())"
  shows "\<exists>fsa. open_wb e fs blobp = Inr fsa \<and>
     fs1 = put_node fsa blobp
       (File (os_urandom e call 12 @ aesgcm_encrypt L (key self) (os_urandom e call 12) (read_bytes fsa src)))"
  using assms by (auto simp: encrypt_file_def Let_def split: sum.splits)

lemma open_wb_ok: "open_wb e fs p = Inr fs' \<Longrightarrow> fs' = put_node fs p (File [])"
  by (auto simp: open_wb_def split: if_splits option.splits node.splits)

lemma read_bytes_put_node:
  "read_bytes (put_node fs p n) q = (if q = p then (case n of File b \<Rightarrow> b | Dir \<Rightarrow> []) else read_bytes fs q)"
  by (simp add: read_bytes_def node_at_put_node)

lemmas fs_defs = open_rb_def open_wb_def node_at_def put_node_def read_bytes_def


section \<open>Properties of paths, directories and the manager's construction\<close>

lemma under_refl: "under p p"
  by (cases p) simp_all

lemma under_parent: "under q (parent p) \<Longrightarrow> under q p"
  by (cases q; cases p) (auto intro: prefix_order.trans [OF _ prefixeq_butlast])

lemma os_mkdir_Inr: "os_mkdir e fs p = Inr fs' \<Longrightarrow> node_at fs p = None \<and> fs' = put_node fs p Dir"
  by (auto simp: os_mkdir_def split: if_splits option.splits node.splits)

lemma mkdir_leaf_frame:
  "mkdir_leaf e fs p x = (fs', r) \<Longrightarrow> q \<noteq> p \<Longrightarrow> node_at fs' q = node_at fs q"
  by (auto simp: mkdir_leaf_def node_at_put_node dest: os_mkdir_Inr split: sum.splits if_splits)

lemma mkdir_parents_frame:
  "mkdir_parents e fs p x = (fs', r) \<Longrightarrow> \<not> under q p \<Longrightarrow> node_at fs' q = node_at fs q"
proof (induction e fs p x arbitrary: fs' r rule: mkdir_parents.induct)
  case (1 e fs p exist_ok)
  have qp: "q \<noteq> p" using "1.prems"(2) under_refl by auto
  have qpp: "\<not> under q (parent p)" using "1.prems"(2) under_parent by blast
  show ?case
  proof (cases "os_mkdir e fs p")
    case (Inr fs1)
    then have "fs' = put_node fs p Dir" using "1.prems"(1) os_mkdir_Inr [OF Inr]
      by (simp add: mkdir_parents.simps [of e fs p])
    then show ?thesis using qp by (simp add: node_at_put_node)
  next
    case (Inl err)
    show ?thesis
    proof (cases "err = FileNotFoundError \<and> parent p \<noteq> p")
      case False
      then show ?thesis using "1.prems"(1) Inl
        by (auto simp: mkdir_parents.simps [of e fs p] split: if_splits)
    next
      case True
      obtain fs1 r1 where rec: "mkdir_parents e fs (parent p) True = (fs1, r1)"
        by (cases "mkdir_parents e fs (parent p) True")
      have a: "node_at fs1 q = node_at fs q"
        using "1.IH" [OF Inl _ _ rec qpp] True by simp
      show ?thesis
      proof (cases r1)
        case (Inl err1)
        then show ?thesis using "1.prems"(1) \<open>os_mkdir e fs p = Inl err\<close> True rec a
          by (simp add: mkdir_parents.simps [of e fs p])
      next
        case (Inr u)
        then have "mkdir_leaf e fs1 p exist_ok = (fs', r)"
          using "1.prems"(1) \<open>os_mkdir e fs p = Inl err\<close> True rec
          by (simp add: mkdir_parents.simps [of e fs p])
        from mkdir_leaf_frame [OF this qp] a show ?thesis by simp
      qed
    qed
  qed
qed

lemma Path_destination: "os_path (Path ''/tmp/my_backups/'') = Abs [''tmp'', ''my_backups'']"
  by (simp add: Path_def)

lemma Path_staging:
  "os_path (Path ''/tmp/my_backup_staging/'') = Abs [''tmp'', ''my_backup_staging'']"
  by (simp add: Path_def)

lemma manager_fields:
  "backup_destination_path manager_config_data = ''/tmp/my_backups/''"
  "encryption_passphrase_prompt manager_config_data = True"
  "temporary_staging_path manager_config_data = ''/tmp/my_backup_staging/''"
  "archive_format manager_config_data = ''tar.gz''"
  "files_to_include manager_config_data = [type_rule ''shell_history'', type_rule ''ssh_keys'']"
  by (simp_all add: manager_config_data_def)

lemma FileDiscoverer_unbound:
  "global_name ''FileDiscoverer'' = Inl (NameError ''FileDiscoverer'')"
  by (simp add: global_name_def manager_globals_def)

lemma BackupManager_init_unfold:
  "BackupManager_init L e c fs =
     (case mkdir_parents e fs (Abs [''tmp'', ''my_backups'']) True of
        (fs1, Inl err) \<Rightarrow> (fs1, Inl err)
      | (fs1, Inr u) \<Rightarrow> (fs1, Inl (NameError ''FileDiscoverer'')))"
  by (simp add: BackupManager_init_def Let_def manager_fields Path_destination Path_mkdir_def
      FileDiscoverer_unbound cong: prod.case_cong sum.case_cong)

lemma BackupManager_init_raises:
  "\<exists>err. BackupManager_init L e c fs
      = (fst (mkdir_parents e fs (Abs [''tmp'', ''my_backups'']) True), Inl err)"
  by (cases "mkdir_parents e fs (Abs [''tmp'', ''my_backups'']) True")
     (auto simp: BackupManager_init_unfold split: sum.splits)



section \<open>What the operations of a run leave in place\<close>

lemma node_at_filter:
  "node_at (filter (\<lambda>(q, n). P q) fs) p = (if P p then node_at fs p else None)"
  by (induction fs) (auto simp: node_at_def)

lemma rmtree_Inr:
  assumes "rmtree fs p = (fs', Inr u)"
  shows "node_at fs' p = None" and "\<not> under p q \<Longrightarrow> node_at fs' q = node_at fs q"
  using assms under_refl [of p]
  by (auto simp: rmtree_def node_at_filter split: option.splits node.splits)

lemma rmtree_Inl: "rmtree fs p = (fs', Inl err) \<Longrightarrow> fs' = fs"
  by (auto simp: rmtree_def split: option.splits node.splits)

lemma mkdir_leaf_Inr_dir: "mkdir_leaf e fs p x = (fs', Inr u) \<Longrightarrow> node_at fs' p = Some Dir"
  using os_mkdir_Inr [of e fs p]
  by (auto simp: mkdir_leaf_def is_dir_def node_at_put_node split: sum.splits if_splits)

lemma mkdir_leaf_keeps:
  "mkdir_leaf e fs p x = (fs', r) \<Longrightarrow> node_at fs q = Some n \<Longrightarrow> node_at fs' q = Some n"
  using os_mkdir_Inr [of e fs p]
  by (auto simp: mkdir_leaf_def node_at_put_node split: sum.splits if_splits)

lemma mkdir_leaf_Inl: "mkdir_leaf e fs p x = (fs', Inl err) \<Longrightarrow> fs' = fs"
  by (auto simp: mkdir_leaf_def split: sum.splits if_splits)

lemma mkdir_parents_cases:
  assumes "mkdir_parents e fs p x = (fs', r)"
  obtains (made) "os_mkdir e fs p = Inr fs'" "r = Inr ()"
  | (stop) err where "os_mkdir e fs p = Inl err" "fs' = fs"
      "err = FileNotFoundError \<longrightarrow> parent p = p"
      "r = (if err \<noteq> FileNotFoundError \<and> x \<and> is_dir fs p then Inr () else Inl err)"
  | (up_fail) err1 where "os_mkdir e fs p = Inl FileNotFoundError" "parent p \<noteq> p"
      "mkdir_parents e fs (parent p) True = (fs', Inl err1)" "r = Inl err1"
  | (up) fs1 where "os_mkdir e fs p = Inl FileNotFoundError" "parent p \<noteq> p"
      "mkdir_parents e fs (parent p) True = (fs1, Inr ())" "mkdir_leaf e fs1 p x = (fs', r)"
proof -
  have step: "(fs', r) =
     (case os_mkdir e fs p of
        Inr fs2 \<Rightarrow> (fs2, Inr ())
      | Inl err \<Rightarrow>
          if err = FileNotFoundError then
            (if parent p = p then (fs, Inl err)
             else (case mkdir_parents e fs (parent p) True of
                     (fs1, Inl err1) \<Rightarrow> (fs1, Inl err1)
                   | (fs1, Inr u) \<Rightarrow> mkdir_leaf e fs1 p x))
          else if \<not> x \<or> \<not> is_dir fs p then (fs, Inl err)
          else (fs, Inr ()))"
    using assms mkdir_parents.simps [of e fs p x] by simp
  show ?thesis
  proof (cases "os_mkdir e fs p")
    case (Inr fs1)
    then show ?thesis using step made by simp
  next
    case (Inl err)
    show ?thesis
    proof (cases "err = FileNotFoundError \<and> parent p \<noteq> p")
      case False
      then show ?thesis using step Inl stop [of err] by (auto split: if_splits)
    next
      case True
      obtain fs1 r1 where rec: "mkdir_parents e fs (parent p) True = (fs1, r1)"
        by (cases "mkdir_parents e fs (parent p) True")
      show ?thesis
      proof (cases r1)
        case (Inl err1)
        then show ?thesis using step \<open>os_mkdir e fs p = Inl err\<close> True rec up_fail [of err1]
          by simp
      next
        case (Inr u)
        then show ?thesis using step \<open>os_mkdir e fs p = Inl err\<close> True rec up [of fs1]
          by simp
      qed
    qed
  qed
qed

lemma mkdir_parents_Inr_dir:
  assumes "mkdir_parents e fs p x = (fs', Inr u)"
  shows "node_at fs' p = Some Dir"
  using assms
proof (cases rule: mkdir_parents_cases)
  case made
  then show ?thesis using os_mkdir_Inr [of e fs p fs'] by (auto simp: node_at_put_node)
next
  case (stop err)
  then show ?thesis by (auto simp: is_dir_def split: if_splits)
next
  case (up_fail err1)
  then show ?thesis by simp
next
  case (up fs1)
  then show ?thesis using mkdir_leaf_Inr_dir by blast
qed

lemma mkdir_parents_keeps:
  "mkdir_parents e fs p x = (fs', r) \<Longrightarrow> node_at fs q = Some n \<Longrightarrow> node_at fs' q = Some n"
proof (induction e fs p x arbitrary: fs' r rule: mkdir_parents.induct)
  case (1 e fs p exist_ok)
  from "1.prems"(1) show ?case
  proof (cases rule: mkdir_parents_cases)
    case made
    then show ?thesis using os_mkdir_Inr [of e fs p fs'] "1.prems"(2)
      by (auto simp: node_at_put_node)
  next
    case (stop err)
    then show ?thesis using "1.prems"(2) by simp
  next
    case (up_fail err1)
    then show ?thesis using "1.IH" [of FileNotFoundError fs' "Inl err1"] "1.prems"(2) by simp
  next
    case (up fs1)
    then have "node_at fs1 q = Some n"
      using "1.IH" [of FileNotFoundError fs1 "Inr ()"] "1.prems"(2) by simp
    then show ?thesis using mkdir_leaf_keeps up(4) by blast
  qed
qed

lemma not_under_parent: "parent p \<noteq> p \<Longrightarrow> \<not> under p (parent p)"
proof (cases p)
  case (Abs ns)
  assume "parent p \<noteq> p"
  then have "ns \<noteq> []" using Abs by auto
  then have "length (butlast ns) < length ns" by simp
  then show ?thesis using Abs by (auto dest: prefix_length_le)
next
  case (Rel ns)
  assume "parent p \<noteq> p"
  then have "ns \<noteq> []" using Rel by auto
  then have "length (butlast ns) < length ns" by simp
  then show ?thesis using Rel by (auto dest: prefix_length_le)
qed

lemma mkdir_parents_Inl_same:
  assumes "mkdir_parents e fs p x = (fs', Inl err)"
  shows "node_at fs' p = node_at fs p"
  using assms
proof (cases rule: mkdir_parents_cases)
  case made
  then show ?thesis by simp
next
  case (stop err)
  then show ?thesis by simp
next
  case (up_fail err1)
  then show ?thesis using mkdir_parents_frame not_under_parent by blast
next
  case (up fs1)
  then have "node_at fs1 p = node_at fs p"
    using mkdir_parents_frame not_under_parent by blast
  then show ?thesis using mkdir_leaf_Inl [OF up(4)] by simp
qed

lemma open_wb_not_dir: "open_wb e fs p = Inr fs' \<Longrightarrow> node_at fs p \<noteq> Some Dir"
  by (auto simp: open_wb_def split: if_splits)

lemma open_wb_keeps_dir:
  "open_wb e fs p = Inr fs' \<Longrightarrow> node_at fs q = Some Dir \<Longrightarrow> node_at fs' q = Some Dir"
  using open_wb_ok [of e fs p fs'] open_wb_not_dir [of e fs p fs']
  by (auto simp: node_at_put_node)

lemma encrypt_file_keeps_dir:
  assumes "encrypt_file L e enc i fs src dst = (fs', r)" and "node_at fs q = Some Dir"
  shows "node_at fs' q = Some Dir"
proof (cases "open_rb e fs src")
  case (Inl err)
  then show ?thesis using assms by (simp add: encrypt_file_def)
next
  case (Inr u)
  show ?thesis
  proof (cases "open_wb e fs dst")
    case (Inl err)
    then show ?thesis using assms Inr by (simp add: encrypt_file_def)
  next
    case w: (Inr fs1)
    have "q \<noteq> dst" using open_wb_not_dir [OF w] assms(2) by auto
    then show ?thesis using assms Inr w open_wb_keeps_dir [OF w assms(2)]
      by (auto simp: encrypt_file_def Let_def node_at_put_node)
  qed
qed

lemma copy2_keeps_dir:
  assumes "copy2 e fs src dst = (fs', r)" and "node_at fs q = Some Dir"
  shows "node_at fs' q = Some Dir"
proof -
  define d where "d = (if is_dir fs dst then joinpath dst (Rel [basename src]) else dst)"
  show ?thesis
  proof (cases "src = d \<and> exists_path fs src")
    case True
    then show ?thesis using assms by (simp add: copy2_def d_def Let_def)
  next
    case False
    show ?thesis
    proof (cases "open_rb e fs src")
      case (Inl err)
      then show ?thesis using assms False by (auto simp: copy2_def d_def Let_def)
    next
      case (Inr u)
      show ?thesis
      proof (cases "open_wb e fs d")
        case (Inl err)
        then show ?thesis using assms False Inr by (auto simp: copy2_def d_def Let_def)
      next
        case w: (Inr fs1)
        have "q \<noteq> d" using open_wb_not_dir [OF w] assms(2) by auto
        moreover have "fs' = put_node fs1 d (File (read_bytes fs1 src))"
          using assms(1) False Inr w by (auto simp: copy2_def d_def Let_def)
        ultimately show ?thesis using open_wb_keeps_dir [OF w assms(2)]
          by (simp add: node_at_put_node)
      qed
    qed
  qed
qed

lemma stage_files_keeps_dir:
  "stage_files L e m i fs files staged = (fs', r) \<Longrightarrow> node_at fs q = Some Dir
     \<Longrightarrow> node_at fs' q = Some Dir"
proof (induction files arbitrary: i fs staged)
  case Nil
  then show ?case by simp
next
  case (Cons f files)
  define d where "d = staged_dest e m f"
  obtain fs1 r1 where mk: "mkdir_parents e fs (parent d) True = (fs1, r1)"
    by (cases "mkdir_parents e fs (parent d) True")
  have k1: "node_at fs1 q = Some Dir" using mkdir_parents_keeps [OF mk Cons.prems(2)] .
  show ?case
  proof (cases r1)
    case (Inl err)
    then show ?thesis using Cons.prems(1) mk k1 by (simp add: d_def Path_mkdir_def Let_def)
  next
    case (Inr u)
    define step where "step = (case encryptor m of
                      Some enc \<Rightarrow> encrypt_file L e enc i fs1 (os_path f) d
                    | None \<Rightarrow>
                        (case copy2 e fs1 (os_path f) d of
                           (fs2, Inl err) \<Rightarrow> (fs2, Inl err)
                         | (fs2, Inr d') \<Rightarrow> (fs2, Inr ())))"
    obtain fs2 r2 where st: "step = (fs2, r2)" by (cases step)
    have k2: "node_at fs2 q = Some Dir"
    proof (cases "encryptor m")
      case None
      then obtain r3 where "copy2 e fs1 (os_path f) d = (fs2, r3)"
        using st by (auto simp: step_def split: prod.splits sum.splits)
      then show ?thesis using copy2_keeps_dir k1 by blast
    next
      case (Some enc)
      then have "encrypt_file L e enc i fs1 (os_path f) d = (fs2, r2)"
        using st by (simp add: step_def)
      then show ?thesis using encrypt_file_keeps_dir k1 by blast
    qed
    have unf: "stage_files L e m i fs (f # files) staged =
       (case r2 of Inl err \<Rightarrow> (fs2, Inl err)
        | Inr u \<Rightarrow> stage_files L e m (Suc i) fs2 files (staged @ [d]))"
      using mk Inr st by (simp add: d_def [symmetric] step_def [symmetric] Path_mkdir_def Let_def)
    show ?thesis
    proof (cases r2)
      case (Inl err)
      then show ?thesis using Cons.prems(1) unf k2 by simp
    next
      case (Inr u2)
      then show ?thesis using Cons.prems(1) unf Cons.IH [OF _ k2] by simp
    qed
  qed
qed

lemma tar_add_all_frame:
  "tar_add_all L e fs out base files entries = (fs', r) \<Longrightarrow> q \<noteq> out
     \<Longrightarrow> node_at fs' q = node_at fs q"
proof (induction files arbitrary: fs entries)
  case Nil
  then show ?case by (auto simp: node_at_put_node)
next
  case (Cons f files)
  show ?case
  proof (cases "relative_to f base")
    case (Inl err)
    then show ?thesis using Cons.prems by simp
  next
    case arc: (Inr arcname)
    show ?thesis
    proof (cases "tar_add e fs f arcname")
      case (Inl err)
      then show ?thesis using Cons.prems arc by simp
    next
      case (Inr members)
      then have "tar_add_all L e (put_node fs out (File (tar_bytes L (entries @ members) False)))
          out base files (entries @ members) = (fs', r)"
        using Cons.prems(1) arc by simp
      from Cons.IH [OF this Cons.prems(2)] show ?thesis
        using Cons.prems(2) by (simp add: node_at_put_node)
    qed
  qed
qed

lemma compress_files_keeps_dir:
  assumes "compress_files L e a fs files out base = (fs', r)" and "node_at fs q = Some Dir"
  shows "node_at fs' q = Some Dir"
proof (cases "archiver_format a = ''tar.gz''")
  case False
  then show ?thesis using assms by (simp add: compress_files_def)
next
  case True
  show ?thesis
  proof (cases "open_wb e fs out")
    case (Inl err)
    then show ?thesis using assms True by (simp add: compress_files_def)
  next
    case w: (Inr fs0)
    have ne: "q \<noteq> out" using open_wb_not_dir [OF w] assms(2) by auto
    have "tar_add_all L e (put_node fs0 out (File (tar_bytes L [] False))) out base files [] = (fs', r)"
      using assms(1) True w by (simp add: compress_files_def)
    from tar_add_all_frame [OF this ne] show ?thesis
      using ne open_wb_keeps_dir [OF w assms(2)] by (simp add: node_at_put_node)
  qed
qed

lemma backup_body_keeps_dir:
  assumes "backup_body L e m fs files = (fs', r)" and "node_at fs q = Some Dir"
  shows "node_at fs' q = Some Dir"
proof -
  obtain fs1 r1 where st: "stage_files L e m 0 fs files [] = (fs1, r1)"
    by (cases "stage_files L e m 0 fs files []")
  have k1: "node_at fs1 q = Some Dir" using stage_files_keeps_dir [OF st assms(2)] .
  show ?thesis
  proof (cases r1)
    case (Inl err)
    then show ?thesis using assms(1) st k1 by (simp add: backup_body_def)
  next
    case (Inr staged)
    obtain fs2 r2 where c: "compress_files L e (archiver m) fs1 staged
        (final_archive_path e m) (staging_path m) = (fs2, r2)"
      by (cases "compress_files L e (archiver m) fs1 staged (final_archive_path e m) (staging_path m)")
    have "fs' = fs2" using assms(1) st Inr c by (auto simp: backup_body_def split: sum.splits)
    then show ?thesis using compress_files_keeps_dir [OF c k1] by simp
  qed
qed

lemma setup_staging_area_Inr:
  assumes "setup_staging_area e m fs = (fs1, Inr s)"
  shows "node_at fs1 (staging_path m) = Some Dir"
proof -
  obtain fs0 r0 where a: "(if exists_path fs (staging_path m) then rmtree fs (staging_path m)
            else (fs, Inr ())) = (fs0, r0)"
    by (cases "if exists_path fs (staging_path m) then rmtree fs (staging_path m) else (fs, Inr ())")
  obtain fs2 r2 where mk: "mkdir_parents e fs0 (staging_path m) False = (fs2, r2)"
    by (cases "mkdir_parents e fs0 (staging_path m) False")
  have "fs2 = fs1 \<and> r2 = Inr ()"
    using assms a mk by (auto simp: setup_staging_area_def Path_mkdir_def split: sum.splits)
  then show ?thesis using mkdir_parents_Inr_dir mk by blast
qed

lemma setup_staging_area_Inl:
  assumes "setup_staging_area e m fs = (fs1, Inl err)"
  shows "node_at fs1 (staging_path m) = None \<or> fs1 = fs"
proof -
  obtain fs0 r0 where a: "(if exists_path fs (staging_path m) then rmtree fs (staging_path m)
            else (fs, Inr ())) = (fs0, r0)"
    by (cases "if exists_path fs (staging_path m) then rmtree fs (staging_path m) else (fs, Inr ())")
  show ?thesis
  proof (cases r0)
    case (Inl err0)
    then have "fs1 = fs0" using assms a by (simp add: setup_staging_area_def)
    moreover have "fs0 = fs" using a Inl rmtree_Inl by (auto split: if_splits)
    ultimately show ?thesis by simp
  next
    case (Inr u)
    have gone: "node_at fs0 (staging_path m) = None"
      using a Inr rmtree_Inr(1) by (auto simp: exists_path_def split: if_splits)
    obtain fs2 r2 where mk: "mkdir_parents e fs0 (staging_path m) False = (fs2, r2)"
      by (cases "mkdir_parents e fs0 (staging_path m) False")
    have "fs2 = fs1 \<and> r2 = Inl err"
      using assms a Inr mk by (auto simp: setup_staging_area_def Path_mkdir_def split: sum.splits)
    then show ?thesis using mkdir_parents_Inl_same mk gone by metis
  qed
qed

lemma cleanup_staging_area_dir:
  assumes "node_at fs (staging_path m) = Some Dir"
  shows "\<exists>fs'. cleanup_staging_area m fs = (fs', Inr ()) \<and> node_at fs' (staging_path m) = None"
proof -
  have "rmtree fs (staging_path m)
      = (filter (\<lambda>(q, n). \<not> under (staging_path m) q) fs, Inr ())"
    using assms by (simp add: rmtree_def)
  then show ?thesis
    using assms rmtree_Inr(1) by (auto simp: cleanup_staging_area_def exists_path_def)
qed

lemma run_backup_staging:
  assumes "run_backup L e m fs = (fs', r)"
  shows "node_at fs' (staging_path m) = None \<or> fs' = fs"
proof (cases "discover_all_files L e fs (discoverer m)")
  case (Inl err)
  then show ?thesis using assms by (simp add: run_backup_def)
next
  case (Inr files)
  show ?thesis
  proof (cases "files = []")
    case True
    then show ?thesis using assms Inr by (simp add: run_backup_def)
  next
    case False
    obtain fs1 r1 where s: "setup_staging_area e m fs = (fs1, r1)"
      by (cases "setup_staging_area e m fs")
    show ?thesis
    proof (cases r1)
      case (Inl err)
      then have "fs' = fs1" using assms Inr False s by (simp add: run_backup_def)
      then show ?thesis using setup_staging_area_Inl [of e m fs fs1 err] s Inl by auto
    next
      case sp: (Inr p)
      obtain fs2 r2 where b: "backup_body L e m fs1 files = (fs2, r2)"
        by (cases "backup_body L e m fs1 files")
      have "node_at fs2 (staging_path m) = Some Dir"
        using backup_body_keeps_dir [OF b] setup_staging_area_Inr [of e m fs fs1 p] s sp by auto
      then obtain fs3 where c: "cleanup_staging_area m fs2 = (fs3, Inr ())"
        and gone: "node_at fs3 (staging_path m) = None"
        using cleanup_staging_area_dir by blast
      have "fs' = fs3" using assms Inr False s sp b c by (simp add: run_backup_def)
      then show ?thesis using gone by simp
    qed
  qed
qed

lemma KeyBackup_run_backup_Inr:
  assumes "KeyBackup_run_backup L e kb fs = (fs', Inr z)"
  shows "node_at fs' (temp_dir kb) = None"
proof -
  obtain fs2 where "rmtree fs2 (temp_dir kb) = (fs', Inr ())"
    using assms
    by (auto simp: KeyBackup_run_backup_def KeyBackup_cleanup_def split: prod.splits sum.splits)
  then show ?thesis using rmtree_Inr(1) by blast
qed

section \<open>What the operations of a run leave untouched\<close>

lemma under_trans: "under a b \<Longrightarrow> under b c \<Longrightarrow> under a c"
  by (cases a; cases b; cases c) auto

lemma under_comparable: "under a c \<Longrightarrow> under b c \<Longrightarrow> under a b \<or> under b a"
  by (cases a; cases b; cases c) (auto dest: prefix_same_cases)

lemma under_joinpath: "under d (joinpath d (Rel ns))"
  by (cases d) auto

lemma prelative_to_Rel: "prelative_to f b = Inr r \<Longrightarrow> \<exists>ns. r = Rel ns"
  by (cases f; cases b) (auto simp: relative_to_def split: if_splits)

lemma under_staged_dest: "under (staging_path m) (staged_dest e m f)"
  by (auto simp: staged_dest_def under_joinpath split: sum.splits dest: prelative_to_Rel)

lemma open_wb_frame: "open_wb e fs p = Inr fs' \<Longrightarrow> q \<noteq> p \<Longrightarrow> node_at fs' q = node_at fs q"
  using open_wb_ok [of e fs p fs'] by (auto simp: node_at_put_node)

lemma encrypt_file_frame:
  assumes "encrypt_file L e enc i fs src dst = (fs', r)" and "q \<noteq> dst"
  shows "node_at fs' q = node_at fs q"
proof (cases "open_rb e fs src")
  case (Inl err)
  then show ?thesis using assms by (simp add: encrypt_file_def)
next
  case (Inr u)
  show ?thesis
  proof (cases "open_wb e fs dst")
    case (Inl err)
    then show ?thesis using assms Inr by (simp add: encrypt_file_def)
  next
    case w: (Inr fs1)
    then show ?thesis using assms Inr open_wb_frame [OF w assms(2)]
      by (auto simp: encrypt_file_def Let_def node_at_put_node)
  qed
qed

lemma copy2_frame:
  assumes "copy2 e fs src dst = (fs', r)" and "\<not> under dst q"
  shows "node_at fs' q = node_at fs q"
proof -
  define d where "d = (if is_dir fs dst then joinpath dst (Rel [basename src]) else dst)"
  have "under dst d" by (simp add: d_def under_joinpath under_refl)
  then have ne: "q \<noteq> d" using assms(2) by auto
  show ?thesis
  proof (cases "src = d \<and> exists_path fs src")
    case True
    then show ?thesis using assms by (simp add: copy2_def d_def Let_def)
  next
    case False
    show ?thesis
    proof (cases "open_rb e fs src")
      case (Inl err)
      then show ?thesis using assms False by (auto simp: copy2_def d_def Let_def)
    next
      case (Inr u)
      show ?thesis
      proof (cases "open_wb e fs d")
        case (Inl err)
        then show ?thesis using assms False Inr by (auto simp: copy2_def d_def Let_def)
      next
        case w: (Inr fs1)
        have "fs' = put_node fs1 d (File (read_bytes fs1 src))"
          using assms(1) False Inr w by (auto simp: copy2_def d_def Let_def)
        then show ?thesis using open_wb_frame [OF w ne] ne by (simp add: node_at_put_node)
      qed
    qed
  qed
qed

lemma stage_files_frame:
  "stage_files L e m i fs files staged = (fs', r)
     \<Longrightarrow> \<not> under (staging_path m) q \<Longrightarrow> \<not> under q (staging_path m)
     \<Longrightarrow> node_at fs' q = node_at fs q"
proof (induction files arbitrary: i fs staged)
  case Nil
  then show ?case by simp
next
  case (Cons f files)
  define d where "d = staged_dest e m f"
  have ud: "under (staging_path m) d" by (simp add: d_def under_staged_dest)
  have nd: "\<not> under d q" using ud Cons.prems(2) under_trans by blast
  have ne: "q \<noteq> d" using ud Cons.prems(2) by auto
  have np: "\<not> under q (parent d)"
    using under_parent [of q d] under_comparable [OF _ ud, of q] Cons.prems(2,3) by blast
  obtain fs1 r1 where mk: "mkdir_parents e fs (parent d) True = (fs1, r1)"
    by (cases "mkdir_parents e fs (parent d) True")
  have k1: "node_at fs1 q = node_at fs q" using mkdir_parents_frame [OF mk np] .
  show ?case
  proof (cases r1)
    case (Inl err)
    then show ?thesis using Cons.prems(1) mk k1 by (simp add: d_def Path_mkdir_def Let_def)
  next
    case (Inr u)
    define step where "step = (case encryptor m of
                      Some enc \<Rightarrow> encrypt_file L e enc i fs1 (os_path f) d
                    | None \<Rightarrow>
                        (case copy2 e fs1 (os_path f) d of
                           (fs2, Inl err) \<Rightarrow> (fs2, Inl err)
                         | (fs2, Inr d') \<Rightarrow> (fs2, Inr ())))"
    obtain fs2 r2 where st: "step = (fs2, r2)" by (cases step)
    have k2: "node_at fs2 q = node_at fs1 q"
    proof (cases "encryptor m")
      case None
      then obtain r3 where "copy2 e fs1 (os_path f) d = (fs2, r3)"
        using st by (auto simp: step_def split: prod.splits sum.splits)
      then show ?thesis using copy2_frame nd by blast
    next
      case (Some enc)
      then have "encrypt_file L e enc i fs1 (os_path f) d = (fs2, r2)"
        using st by (simp add: step_def)
      then show ?thesis using encrypt_file_frame ne by blast
    qed
    have unf: "stage_files L e m i fs (f # files) staged =
       (case r2 of Inl err \<Rightarrow> (fs2, Inl err)
        | Inr u \<Rightarrow> stage_files L e m (Suc i) fs2 files (staged @ [d]))"
      using mk Inr st by (simp add: d_def [symmetric] step_def [symmetric] Path_mkdir_def Let_def)
    show ?thesis
    proof (cases r2)
      case (Inl err)
      then show ?thesis using Cons.prems(1) unf k1 k2 by simp
    next
      case (Inr u2)
      then have "stage_files L e m (Suc i) fs2 files (staged @ [d]) = (fs', r)"
        using Cons.prems(1) unf by simp
      from Cons.IH [OF this Cons.prems(2,3)] show ?thesis using k1 k2 by simp
    qed
  qed
qed

lemma setup_staging_area_frame:
  assumes "setup_staging_area e m fs = (fs1, r)"
    and "\<not> under (staging_path m) q" and "\<not> under q (staging_path m)"
  shows "node_at fs1 q = node_at fs q"
proof -
  obtain fs0 r0 where a: "(if exists_path fs (staging_path m) then rmtree fs (staging_path m)
            else (fs, Inr ())) = (fs0, r0)"
    by (cases "if exists_path fs (staging_path m) then rmtree fs (staging_path m) else (fs, Inr ())")
  have k0: "node_at fs0 q = node_at fs q"
  proof (cases r0)
    case (Inl err)
    then show ?thesis using a rmtree_Inl by (auto split: if_splits)
  next
    case (Inr u)
    then show ?thesis using a rmtree_Inr(2) assms(2) by (auto split: if_splits)
  qed
  show ?thesis
  proof (cases r0)
    case (Inl err)
    then show ?thesis using assms(1) a k0 by (simp add: setup_staging_area_def)
  next
    case (Inr u)
    obtain fs2 r2 where mk: "mkdir_parents e fs0 (staging_path m) False = (fs2, r2)"
      by (cases "mkdir_parents e fs0 (staging_path m) False")
    have "fs1 = fs2"
      using assms(1) a Inr mk by (auto simp: setup_staging_area_def Path_mkdir_def split: sum.splits)
    then show ?thesis using mkdir_parents_frame [OF mk assms(3)] k0 by simp
  qed
qed

lemma cleanup_staging_area_frame:
  assumes "cleanup_staging_area m fs = (fs', r)" and "\<not> under (staging_path m) q"
  shows "node_at fs' q = node_at fs q"
proof (cases r)
  case (Inl err)
  then show ?thesis using assms rmtree_Inl by (auto simp: cleanup_staging_area_def split: if_splits)
next
  case (Inr u)
  then show ?thesis using assms rmtree_Inr(2)
    by (auto simp: cleanup_staging_area_def split: if_splits)
qed

lemma tar_add_all_Inl:
  "tar_add_all L e fs out base files entries = (fs', Inl err)
     \<Longrightarrow> node_at fs out = Some (File (tar_bytes L entries False))
     \<Longrightarrow> \<exists>entries'. node_at fs' out = Some (File (tar_bytes L entries' False))"
proof (induction files arbitrary: fs entries)
  case Nil
  then show ?case by simp
next
  case (Cons f files)
  show ?case
  proof (cases "relative_to f base")
    case (Inl err1)
    then show ?thesis using Cons.prems by auto
  next
    case arc: (Inr arcname)
    show ?thesis
    proof (cases "tar_add e fs f arcname")
      case (Inl err1)
      then show ?thesis using Cons.prems arc by auto
    next
      case (Inr members)
      then have "tar_add_all L e (put_node fs out (File (tar_bytes L (entries @ members) False)))
          out base files (entries @ members) = (fs', Inl err)"
        using Cons.prems(1) arc by simp
      from Cons.IH [OF this] show ?thesis by (simp add: node_at_put_node)
    qed
  qed
qed

lemma compress_files_partial:
  assumes "compress_files L e a fs files out base = (fs', Inl err)"
    and "archiver_format a = ''tar.gz''" and "open_wb e fs out = Inr fso"
  shows "\<exists>entries. node_at fs' out = Some (File (tar_bytes L entries False))"
proof -
  have "tar_add_all L e (put_node fso out (File (tar_bytes L [] False))) out base files []
      = (fs', Inl err)"
    using assms by (simp add: compress_files_def)
  from tar_add_all_Inl [OF this] show ?thesis by (simp add: node_at_put_node)
qed

lemma run_backup_unfold:
  assumes "discover_all_files L e fs (discoverer m) = Inr files" and "files \<noteq> []"
    and "setup_staging_area e m fs = (fs1, Inr sp)"
    and "backup_body L e m fs1 files = (fs2, r2)"
  shows "\<exists>fs3. cleanup_staging_area m fs2 = (fs3, Inr ())
     \<and> run_backup L e m fs = (fs3, case r2 of Inl err \<Rightarrow> Inl err | Inr a \<Rightarrow> Inr (Some a))"
proof -
  have "node_at fs2 (staging_path m) = Some Dir"
    using backup_body_keeps_dir [OF assms(4)] setup_staging_area_Inr [OF assms(3)] by simp
  then obtain fs3 where c: "cleanup_staging_area m fs2 = (fs3, Inr ())"
    using cleanup_staging_area_dir by blast
  then show ?thesis using assms by (simp add: run_backup_def)
qed

section \<open>What the construction of the manager does\<close>







section \<open>The claims about encryptor.py\<close>

text \<open>
  Claim C10. Every call of \<^verbatim>\<open>decrypt_file\<close> that raises because the tag check fails
  has created (or truncated) the file at \<^verbatim>\<open>output_file_path\<close> as an empty file: the
  output is opened for writing before the tag is verified, so the file system after the
  failure is the one before it with an empty file at the output path.
\<close>

theorem decrypt_failure_truncates_output:
  assumes "decrypt_file L e self fs inp out = (fs', Inl InvalidTag)"
  shows "fs' = put_node fs out (File []) \<and> node_at fs' out = Some (File [])"
  using assms
  by (auto simp: decrypt_file_def open_rb_def open_wb_def Let_def node_at_put_node
        split: if_splits option.splits node.splits sum.splits)

theorem decrypt_failure_witness:
  "decrypt_file demo_lib demo_env demo_key [(Abs [], Dir), (Abs [''blob''], File [0, 1, 2, 3, 4, 5, 6, 7, 8, 9, 10, 11, 12])]
      (Abs [''blob'']) (Abs [''out''])
     = (put_node [(Abs [], Dir), (Abs [''blob''], File [0, 1, 2, 3, 4, 5, 6, 7, 8, 9, 10, 11, 12])] (Abs [''out'']) (File []), Inl InvalidTag)
   \<and> node_at (put_node [(Abs [], Dir), (Abs [''blob''], File [0, 1, 2, 3, 4, 5, 6, 7, 8, 9, 10, 11, 12])] (Abs [''out'']) (File [])) (Abs [''out'']) = Some (File [])"
proof -
  have f: "decrypt_file demo_lib demo_env demo_key [(Abs [], Dir), (Abs [''blob''], File [0, 1, 2, 3, 4, 5, 6, 7, 8, 9, 10, 11, 12])]
      (Abs [''blob'']) (Abs [''out''])
     = (put_node [(Abs [], Dir), (Abs [''blob''], File [0, 1, 2, 3, 4, 5, 6, 7, 8, 9, 10, 11, 12])] (Abs [''out'']) (File []), Inl InvalidTag)"
    by (simp add: decrypt_file_def fs_defs demo_env_def demo_lib_def Let_def)
  show ?thesis using decrypt_failure_truncates_output [OF f] f by simp
qed


text \<open>
  Claim C2. Decrypting the blob that \<^verbatim>\<open>encrypt_file\<close> produced from a file of content
  \<open>p\<close> (empty or not), under the same key, succeeds and writes exactly \<open>p\<close>, for every
  key, nonce and content, given the round-trip contract of the AEAD library, distinct
  paths for plaintext, blob and output, and an output that can be opened.
\<close>

theorem decrypt_after_encrypt:
  assumes rt: "aead_roundtrip L"
    and src: "node_at fs src = Some (File p)" "src \<noteq> blobp"
    and enc: "encrypt_file L e self call fs src blobp = (fs1, Inr ())"
    and out: "blobp \<noteq> out" "\<not> io_fault e OpRead blobp" "open_wb e fs1 out = Inr fs1'"
  shows "\<exists>fs2. decrypt_file L e self fs1 blobp out = (fs2, Inr ()) \<and> node_at fs2 out = Some (File p)"
proof -
  obtain fsa where fsa: "open_wb e fs blobp = Inr fsa"
    and fs1: "fs1 = put_node fsa blobp
       (File (os_urandom e call 12 @ aesgcm_encrypt L (key self) (os_urandom e call 12) (read_bytes fsa src)))"
    using encrypt_file_ok [OF enc] by blast
  have pl: "read_bytes fsa src = p"
    using open_wb_ok [OF fsa] src by (simp add: read_bytes_put_node) (simp add: read_bytes_def)
  have rd: "open_rb e fs1 blobp = Inr ()"
    using out(2) by (simp add: open_rb_def fs1 node_at_put_node)
  have blob: "read_bytes fs1' blobp = os_urandom e call 12 @ aesgcm_encrypt L (key self) (os_urandom e call 12) p"
    using open_wb_ok [OF out(3)] out(1) by (simp add: read_bytes_put_node fs1 pl)
  have dec: "aesgcm_decrypt L (key self) (os_urandom e call 12)
      (aesgcm_encrypt L (key self) (os_urandom e call 12) p) = Inr p"
    using rt by (simp add: aead_roundtrip_def)
  show ?thesis
    by (simp add: decrypt_file_def rd out(3) blob length_os_urandom dec node_at_put_node)
qed

theorem decrypt_after_encrypt_witness:
  "\<exists>fs2. decrypt_file demo_lib demo_env demo_key
      (fst (encrypt_file demo_lib demo_env demo_key 0 empty_file_fs (Abs [''plain'']) (Abs [''blob''])))
      (Abs [''blob'']) (Abs [''out'']) = (fs2, Inr ())
    \<and> node_at fs2 (Abs [''out'']) = Some (File [])"
proof -
  let ?fs1 = "fst (encrypt_file demo_lib demo_env demo_key 0 empty_file_fs (Abs [''plain'']) (Abs [''blob'']))"
  have ok: "snd (encrypt_file demo_lib demo_env demo_key 0 empty_file_fs (Abs [''plain'']) (Abs [''blob''])) = Inr ()"
    by (simp add: encrypt_file_def fs_defs empty_file_fs_def demo_env_def Let_def)
  have enc: "encrypt_file demo_lib demo_env demo_key 0 empty_file_fs (Abs [''plain'']) (Abs [''blob'']) = (?fs1, Inr ())"
    using ok by (metis prod.collapse)
  have w: "open_wb demo_env ?fs1 (Abs [''out'']) = Inr (put_node ?fs1 (Abs [''out'']) (File []))"
    by (simp add: encrypt_file_def fs_defs empty_file_fs_def demo_env_def Let_def)
  show ?thesis
    by (rule decrypt_after_encrypt [OF demo_roundtrip _ _ enc _ _ w])
       (simp_all add: node_at_def empty_file_fs_def demo_env_def)
qed


text \<open>
  Claim C3. When one bit of the ciphertext or of the tag (any bit after the 96 bits of the
  nonce) in a blob written by \<^verbatim>\<open>encrypt_file\<close> is flipped, \<^verbatim>\<open>decrypt_file\<close>
  fails with the library's authentication error \<^verbatim>\<open>InvalidTag\<close> and writes no
  plaintext: the output file is left empty. The rejection of the flipped ciphertext is the
  contract of the AEAD library.
\<close>

theorem bit_flip_rejected:
  assumes rej: "aead_rejects_bit_flips L"
    and enc: "encrypt_file L e self call fs src blobp = (fs1, Inr ())"
    and blob: "node_at fs1 blobp = Some (File blob)"
    and j: "96 \<le> j" "j < 8 * length blob"
    and fs2: "fs2 = put_node fs1 blobp (File (flip_bit_at j blob))"
    and out: "blobp \<noteq> out" "\<not> io_fault e OpRead blobp" "open_wb e fs2 out = Inr fs3"
  shows "decrypt_file L e self fs2 blobp out = (fs3, Inl InvalidTag) \<and> node_at fs3 out = Some (File [])"
proof -
  obtain fsa where fsa: "open_wb e fs blobp = Inr fsa"
    and fs1: "fs1 = put_node fsa blobp
       (File (os_urandom e call 12 @ aesgcm_encrypt L (key self) (os_urandom e call 12) (read_bytes fsa src)))"
    using encrypt_file_ok [OF enc] by blast
  define nonce where "nonce = os_urandom e call 12"
  define ct where "ct = aesgcm_encrypt L (key self) nonce (read_bytes fsa src)"
  have b: "blob = nonce @ ct" using blob by (simp add: fs1 node_at_put_node nonce_def ct_def)
  have ln: "length nonce = 12" by (simp add: nonce_def length_os_urandom)
  have fl: "flip_bit_at j blob = nonce @ flip_bit_at (j - 96) ct"
    using flip_bit_at_append_right [of nonce j ct] j(1) by (simp add: b ln)
  have jj: "j - 96 < 8 * length ct" using j by (simp add: b ln)
  have dec: "aesgcm_decrypt L (key self) nonce (flip_bit_at (j - 96) ct) = Inl InvalidTag"
    using rej jj unfolding aead_rejects_bit_flips_def ct_def by blast
  have rd: "open_rb e fs2 blobp = Inr ()"
    using out(2) by (simp add: open_rb_def fs2 node_at_put_node)
  have rb: "read_bytes fs3 blobp = nonce @ flip_bit_at (j - 96) ct"
    using open_wb_ok [OF out(3)] out(1) by (simp add: read_bytes_put_node fs2 fl)
  have e3: "node_at fs3 out = Some (File [])"
    using open_wb_ok [OF out(3)] by (simp add: node_at_put_node)
  show ?thesis
    by (simp add: decrypt_file_def rd out(3) rb ln dec e3)
qed


theorem bit_flip_rejected_witness:
  "decrypt_file demo_lib demo_env demo_key tampered_fs (Abs [''blob'']) (Abs [''out''])
     = (put_node tampered_fs (Abs [''out'']) (File []), Inl InvalidTag)
   \<and> node_at (put_node tampered_fs (Abs [''out'']) (File [])) (Abs [''out'']) = Some (File [])"
proof -
  let ?blob = "read_bytes encrypted_fs (Abs [''blob''])"
  have ok: "snd (encrypt_file demo_lib demo_env demo_key 0 two_byte_fs (Abs [''plain'']) (Abs [''blob''])) = Inr ()"
    by (simp add: encrypt_file_def fs_defs two_byte_fs_def demo_env_def Let_def)
  have enc: "encrypt_file demo_lib demo_env demo_key 0 two_byte_fs (Abs [''plain'']) (Abs [''blob''])
      = (encrypted_fs, Inr ())"
    using ok unfolding encrypted_fs_def by (metis prod.collapse)
  have blob: "node_at encrypted_fs (Abs [''blob'']) = Some (File ?blob)"
    by (simp add: encrypted_fs_def encrypt_file_def fs_defs two_byte_fs_def demo_env_def Let_def)
  have len: "length ?blob = 16"
    by (simp add: encrypted_fs_def encrypt_file_def fs_defs two_byte_fs_def demo_env_def
        demo_lib_def Let_def os_urandom_def)
  have j: "100 < 8 * length ?blob" by (simp add: len)
  have w: "open_wb demo_env tampered_fs (Abs [''out''])
      = Inr (put_node tampered_fs (Abs [''out'']) (File []))"
    by (simp add: tampered_fs_def encrypted_fs_def encrypt_file_def fs_defs two_byte_fs_def
        demo_env_def Let_def)
  show ?thesis
    by (rule bit_flip_rejected [OF demo_rejects enc blob _ j tampered_fs_def _ _ w])
       (simp_all add: demo_env_def)
qed

section \<open>The claim about discoverer.py\<close>

lemma rule_files_home:
  assumes "home_dir self' = home_dir self"
  shows "rule_files L e fs self' r = rule_files L e fs self r"
proof -
  have a: "get_shell_history_files e fs self' = get_shell_history_files e fs self"
    using assms by (simp add: get_shell_history_files_def)
  have b: "get_ssh_key_files e fs self' = get_ssh_key_files e fs self"
    using assms by (simp add: get_ssh_key_files_def)
  have c: "get_gpg_key_files e fs self' = get_gpg_key_files e fs self"
    using assms by (simp add: get_gpg_key_files_def)
  show ?thesis unfolding rule_files_def a b c by (rule refl)
qed

lemma discover_loop_Inr:
  "discover_loop L e fs self rules acc = Inr out \<Longrightarrow>
     set out = set acc \<union> (\<Union>r\<in>set rules. rule_set L e fs self r)
     \<and> (distinct acc \<longrightarrow> distinct out)
     \<and> (\<forall>r\<in>set rules. \<exists>found. rule_files L e fs self r = Inr found)"
proof (induction rules arbitrary: acc)
  case Nil
  then show ?case by simp
next
  case (Cons r rules)
  then obtain found where f: "rule_files L e fs self r = Inr found"
    and rest: "discover_loop L e fs self rules (List.union found acc) = Inr out"
    by (auto split: sum.splits)
  from Cons.IH [OF rest] f show ?case by (auto simp: rule_set_def)
qed

lemma discover_loop_total:
  "\<forall>r\<in>set rules. \<exists>found. rule_files L e fs self r = Inr found \<Longrightarrow>
     \<exists>out. discover_loop L e fs self rules acc = Inr out"
  by (induction rules arbitrary: acc) auto

lemma discover_all_files_Inr:
  assumes "discover_all_files L e fs self = Inr files"
  shows "\<exists>all. discover_loop L e fs self (files_to_include (config self)) [] = Inr all
           \<and> files = filter (\<lambda>f. is_file fs (os_path f)) all"
  using assms by (auto simp: discover_all_files_def split: sum.splits)

text \<open>
  Claim C5, as amended. When \<^verbatim>\<open>discover_all_files\<close> returns, its list has no
  \<^verbatim>\<open>Path\<close> value twice (paths as \<^verbatim>\<open>pathlib\<close> compares them, which is what the
  set of the source holds: nothing is resolved), every member names a regular file of the
  file system it was evaluated on, and a discoverer with the same rules in another order
  returns too, with the same set of path values.
\<close>

theorem discovered_path_values:
  assumes "discover_all_files L e fs self = Inr files"
  shows "distinct files \<and> (\<forall>f\<in>set files. is_file fs (os_path f)) \<and>
     (\<forall>self' :: FileDiscoverer. home_dir self' = home_dir self
          \<and> mset (files_to_include (config self')) = mset (files_to_include (config self))
        \<longrightarrow> (\<exists>files'. discover_all_files L e fs self' = Inr files' \<and> set files' = set files))"
proof (intro conjI allI impI)
  obtain all where loop: "discover_loop L e fs self (files_to_include (config self)) [] = Inr all"
    and files: "files = filter (\<lambda>f. is_file fs (os_path f)) all"
    using discover_all_files_Inr [OF assms] by blast
  note L1 = discover_loop_Inr [OF loop]
  show "distinct files" using L1 by (simp add: files)
  show "\<forall>f\<in>set files. is_file fs (os_path f)" by (simp add: files)
  fix self' :: FileDiscoverer
  assume a: "home_dir self' = home_dir self
      \<and> mset (files_to_include (config self')) = mset (files_to_include (config self))"
  then have s: "set (files_to_include (config self')) = set (files_to_include (config self))"
    by (metis set_mset_mset)
  have h: "\<And>r. rule_files L e fs self' r = rule_files L e fs self r"
    using a by (intro rule_files_home) simp
  have "\<forall>r\<in>set (files_to_include (config self')). \<exists>found. rule_files L e fs self' r = Inr found"
    using L1 s h by simp
  then obtain all' where loop': "discover_loop L e fs self' (files_to_include (config self')) [] = Inr all'"
    using discover_loop_total by blast
  have "set all' = set all"
    using discover_loop_Inr [OF loop'] L1 s h by (simp add: rule_set_def)
  then have "set (filter (\<lambda>f. is_file fs (os_path f)) all') = set files" by (simp add: files)
  then show "\<exists>files'. discover_all_files L e fs self' = Inr files' \<and> set files' = set files"
    by (simp add: discover_all_files_def loop')
qed

theorem discovered_path_values_witness:
  "discover_all_files demo_lib demo_env demo_fs demo_discoverer = Inr demo_files
   \<and> distinct demo_files
   \<and> is_file demo_fs (Abs [''home'', ''u'', ''.ssh'', ''id_rsa.pub''])
   \<and> is_file demo_fs (Abs [''home'', ''u'', ''.ssh'', ''id_rsa''])
   \<and> is_file demo_fs (Abs [''home'', ''u'', ''.bash_history''])
   \<and> (\<exists>files'. discover_all_files demo_lib demo_env demo_fs reordered_discoverer = Inr files'
         \<and> set files' = set demo_files)"
proof -
  have d: "discover_all_files demo_lib demo_env demo_fs demo_discoverer = Inr demo_files"
    by code_simp
  have h: "home_dir reordered_discoverer = home_dir demo_discoverer
     \<and> mset (files_to_include (config reordered_discoverer))
         = mset (files_to_include (config demo_discoverer))"
    by (simp add: reordered_discoverer_def demo_discoverer_def)
  from discovered_path_values [OF d] h d show ?thesis by (simp add: demo_files_def)
qed

text \<open>
  Claim C5 as stated fails: with \<^verbatim>\<open>HISTFILE=//home/u/.bash_history\<close> the shell
  history is returned twice, as \<^verbatim>\<open>//home/u/.bash_history\<close> and as
  \<^verbatim>\<open>/home/u/.bash_history\<close>, two path values that the operating system resolves
  to one file.
\<close>

theorem one_file_under_two_path_values:
  "discover_all_files demo_lib alias_env demo_fs (discoverer demo_manager)
     = Inr [Plain (Abs [''home'', ''u'', ''.ssh'', ''id_rsa.pub'']),
            Plain (Abs [''home'', ''u'', ''.ssh'', ''id_rsa'']),
            TwoSlashes [''home'', ''u'', ''.bash_history''],
            Plain (Abs [''home'', ''u'', ''.bash_history''])]
   \<and> os_path (TwoSlashes [''home'', ''u'', ''.bash_history''])
       = os_path (Plain (Abs [''home'', ''u'', ''.bash_history'']))
   \<and> \<not> distinct (map os_path
          [Plain (Abs [''home'', ''u'', ''.ssh'', ''id_rsa.pub'']),
           Plain (Abs [''home'', ''u'', ''.ssh'', ''id_rsa'']),
           TwoSlashes [''home'', ''u'', ''.bash_history''],
           Plain (Abs [''home'', ''u'', ''.bash_history''])])"
  by code_simp

section \<open>The claim about the key derivation\<close>

text \<open>
  Claim C4, as amended. The key of a \<^verbatim>\<open>FileEncryptor\<close> is the SHA-256 digest of the
  encoded passphrase and of nothing else: no salt is drawn and no cost factor applied, so
  the key is a function of the passphrase, the same in every run.
\<close>

theorem key_is_digest_of_passphrase:
  "key (FileEncryptor_init L passphrase) = sha256 L (encode passphrase)"
  by (simp add: FileEncryptor_init_def)

text \<open>
  Claim C4 as stated fails: the key derived from \<^verbatim>\<open>correct-horse\<close> is its bare
  digest, and a later run with another random source, given the same passphrase, holds the
  same key: it decrypts what the first run encrypted.
\<close>

theorem same_key_in_another_run:
  "os_urandom demo_env 0 12 \<noteq> os_urandom later_env 0 12
   \<and> key (FileEncryptor_init demo_lib ''correct-horse'')
       = [99, 111, 114, 114, 101, 99, 116, 45, 104, 111, 114, 115, 101,
          0, 0, 0, 0, 0, 0, 0, 0, 0, 0, 0, 0, 0, 0, 0, 0, 0, 0, 0]
   \<and> snd (decrypt_file demo_lib later_env (FileEncryptor_init demo_lib ''correct-horse'')
        (fst (encrypt_file demo_lib demo_env (FileEncryptor_init demo_lib ''correct-horse'') 0
               two_byte_fs (Abs [''plain'']) (Abs [''blob''])))
        (Abs [''blob'']) (Abs [''out''])) = Inr ()"
  by code_simp


section \<open>The claims about the construction of the manager\<close>








section \<open>The claims about the runs\<close>

text \<open>
  Claim C1, as amended. After every run of \<^verbatim>\<open>BackupManager.run_backup\<close>, whether it
  completes or a failure is raised during discovery, staging or archiving, the staging
  path does not exist, unless the run ended before the staging area was set up (discovery
  failed or found nothing, or a stale staging path could not be removed), in which case the
  file system is as it was before the run. After every run of
  \<^verbatim>\<open>KeyBackup.run_backup\<close> that completes normally, its temporary directory does not
  exist.
\<close>

theorem staging_removed_after_run:
  "(run_backup L e m fs = (fs', r) \<longrightarrow> node_at fs' (staging_path m) = None \<or> fs' = fs)
   \<and> (KeyBackup_run_backup L e kb fsk = (fsk', Inr z) \<longrightarrow> node_at fsk' (temp_dir kb) = None)"
  using run_backup_staging KeyBackup_run_backup_Inr by blast

theorem staging_removed_witness:
  "node_at (fst (run_backup demo_lib demo_env demo_manager fs_after_init)) (staging_path demo_manager) = None
   \<and> node_at (fst (KeyBackup_run_backup demo_lib demo_env demo_kb fs_kb)) (temp_dir demo_kb) = None"
proof -
  let ?fs' = "fst (run_backup demo_lib demo_env demo_manager fs_after_init)"
  let ?r = "snd (run_backup demo_lib demo_env demo_manager fs_after_init)"
  let ?fs'' = "fst (KeyBackup_run_backup demo_lib demo_env demo_kb fs_kb)"
  have a: "run_backup demo_lib demo_env demo_manager fs_after_init = (?fs', ?r)" by simp
  have b: "node_at ?fs' demo_archive \<noteq> node_at fs_after_init demo_archive" by code_simp
  then have b': "?fs' \<noteq> fs_after_init" by auto
  have c: "snd (KeyBackup_run_backup demo_lib demo_env demo_kb fs_kb)
      = Inr (Abs [''home'', ''u'', ''keys_backup.zip''])" by code_simp
  then have c': "KeyBackup_run_backup demo_lib demo_env demo_kb fs_kb
      = (?fs'', Inr (Abs [''home'', ''u'', ''keys_backup.zip'']))"
    by (metis prod.collapse)
  show ?thesis
    using staging_removed_after_run [of demo_lib demo_env demo_manager fs_after_init ?fs' ?r
        demo_kb fs_kb ?fs'' "Abs [''home'', ''u'', ''keys_backup.zip'']"] a b' c'
    by blast
qed

text \<open>
  Claim C1 as stated fails. A \<^verbatim>\<open>KeyBackup\<close> whose zip file cannot be created raises
  from \<^verbatim>\<open>create_encrypted_zip\<close>, and \<^verbatim>\<open>cleanup\<close> is never reached: the
  temporary directory stays, with the copy of the private key in it. And a run of the
  manager that discovers nothing returns before it touches a staging directory that an
  earlier run left behind.
\<close>

theorem staging_left_behind:
  "KeyBackup_init demo_env demo_fs ''/home/u/.ssh/id_rsa'' ''/home/u/.gnupg/secring.gpg''
       ''pw'' ''backups/keys.zip''
     = (fs_kb, Inr (demo_kb \<lparr> zip_filename := ''backups/keys.zip'' \<rparr>))
   \<and> snd (KeyBackup_run_backup demo_lib demo_env (demo_kb \<lparr> zip_filename := ''backups/keys.zip'' \<rparr>) fs_kb)
       = Inl FileNotFoundError
   \<and> node_at (fst (KeyBackup_run_backup demo_lib demo_env
                      (demo_kb \<lparr> zip_filename := ''backups/keys.zip'' \<rparr>) fs_kb))
         (Abs [''home'', ''u'', ''temp_keys_backup'', ''id_rsa'']) = Some (File [1, 2, 3])
   \<and> run_backup demo_lib demo_env demo_manager stale_fs = (stale_fs, Inr None)
   \<and> node_at stale_fs (staging_path demo_manager) = Some Dir"
  by code_simp

text \<open>
  Claim C6, as amended. In every run of \<^verbatim>\<open>run_backup\<close> whose archive path and
  staging path do not contain one another, the archive is created only after every
  discovered file was staged: when staging fails, the run fails with that error and the
  final archive path is as it was before the run. The \<^verbatim>\<open>tar.gz\<close> archive is written
  in place, under its final name, with no temporary file and no rename: when the archive
  was opened and a later step of writing it fails, the run fails with that error and the
  unclosed archive stays under the final name.
\<close>

theorem archive_after_staging_written_in_place:
  assumes disc: "discover_all_files L e fs (discoverer m) = Inr files" "files \<noteq> []"
    and area: "setup_staging_area e m fs = (fs1, Inr sp)"
    and stage: "stage_files L e m 0 fs1 files [] = (fs2, rs)"
    and run: "run_backup L e m fs = (fs', r)"
    and nu1: "\<not> under (staging_path m) (final_archive_path e m)"
    and nu2: "\<not> under (final_archive_path e m) (staging_path m)"
  shows "(rs = Inl err \<longrightarrow>
            r = Inl err \<and> node_at fs' (final_archive_path e m) = node_at fs (final_archive_path e m))
    \<and> (rs = Inr staged \<and> archiver_format (archiver m) = ''tar.gz''
          \<and> open_wb e fs2 (final_archive_path e m) = Inr fso
          \<and> compress_files L e (archiver m) fs2 staged (final_archive_path e m) (staging_path m)
              = (fs3, Inl err) \<longrightarrow>
            r = Inl err
            \<and> (\<exists>entries. node_at fs' (final_archive_path e m)
                   = Some (File (tar_bytes L entries False))))"
proof -
  have s0: "node_at fs1 (final_archive_path e m) = node_at fs (final_archive_path e m)"
    using setup_staging_area_frame [OF area nu1 nu2] .
  have s1: "node_at fs2 (final_archive_path e m) = node_at fs1 (final_archive_path e m)"
    using stage_files_frame [OF stage nu1 nu2] .
  show ?thesis
  proof (intro conjI impI)
    assume a: "rs = Inl err"
    then have b: "backup_body L e m fs1 files = (fs2, Inl err)"
      using stage by (simp add: backup_body_def)
    from run_backup_unfold [OF disc area b] obtain fsc where
      c: "cleanup_staging_area m fs2 = (fsc, Inr ())" and r: "run_backup L e m fs = (fsc, Inl err)"
      by auto
    from r run show "r = Inl err" by simp
    from r run have "fs' = fsc" by simp
    then show "node_at fs' (final_archive_path e m) = node_at fs (final_archive_path e m)"
      using cleanup_staging_area_frame [OF c nu1] s0 s1 by simp
  next
    assume a: "rs = Inr staged \<and> archiver_format (archiver m) = ''tar.gz''
          \<and> open_wb e fs2 (final_archive_path e m) = Inr fso
          \<and> compress_files L e (archiver m) fs2 staged (final_archive_path e m) (staging_path m)
              = (fs3, Inl err)"
    then have b: "backup_body L e m fs1 files = (fs3, Inl err)"
      using stage by (simp add: backup_body_def)
    from run_backup_unfold [OF disc area b] obtain fsc where
      c: "cleanup_staging_area m fs3 = (fsc, Inr ())" and r: "run_backup L e m fs = (fsc, Inl err)"
      by auto
    from r run show "r = Inl err" by simp
    from r run have f: "fs' = fsc" by simp
    obtain entries where "node_at fs3 (final_archive_path e m) = Some (File (tar_bytes L entries False))"
      using compress_files_partial [of L e "archiver m" fs2 staged "final_archive_path e m"
          "staging_path m" fs3 err fso] a by blast
    then show "\<exists>entries. node_at fs' (final_archive_path e m) = Some (File (tar_bytes L entries False))"
      using cleanup_staging_area_frame [OF c nu1] f by auto
  qed
qed

theorem archive_after_staging_witness:
  "snd (run_backup demo_lib stage_fault_env demo_manager fs_after_init) = Inl OSError
   \<and> node_at (fst (run_backup demo_lib stage_fault_env demo_manager fs_after_init)) demo_archive
       = node_at fs_after_init demo_archive
   \<and> snd (run_backup demo_lib archive_fault_env demo_manager fs_after_init) = Inl OSError
   \<and> (\<exists>entries.
         node_at (fst (run_backup demo_lib archive_fault_env demo_manager fs_after_init)) demo_archive
           = Some (File (tar_bytes demo_lib entries False)))"
proof -
  have nu: "\<not> under (staging_path demo_manager) demo_archive"
    "\<not> under demo_archive (staging_path demo_manager)"
    by (simp_all add: demo_manager_def demo_archive_def)
  have tgz: "archiver_format (archiver demo_manager) = ''tar.gz''"
    by (simp add: demo_manager_def)
  have first: "snd (run_backup demo_lib stage_fault_env demo_manager fs_after_init) = Inl OSError
   \<and> node_at (fst (run_backup demo_lib stage_fault_env demo_manager fs_after_init)) demo_archive
       = node_at fs_after_init demo_archive"
  proof -
    let ?e = stage_fault_env
    let ?fs1 = "fst (setup_staging_area ?e demo_manager fs_after_init)"
    let ?st = "stage_files demo_lib ?e demo_manager 0 ?fs1 demo_files []"
    let ?run = "run_backup demo_lib ?e demo_manager fs_after_init"
    have disc: "discover_all_files demo_lib ?e fs_after_init (discoverer demo_manager) = Inr demo_files"
      by code_simp
    have ne: "demo_files \<noteq> []" by (simp add: demo_files_def)
    have "snd (setup_staging_area ?e demo_manager fs_after_init) = Inr (staging_path demo_manager)"
      by code_simp
    then have area: "setup_staging_area ?e demo_manager fs_after_init
        = (?fs1, Inr (staging_path demo_manager))" by (metis prod.collapse)
    have "snd ?st = Inl OSError" by code_simp
    then have stage: "?st = (fst ?st, Inl OSError)" by (metis prod.collapse)
    have run: "?run = (fst ?run, snd ?run)" by simp
    have F: "final_archive_path ?e demo_manager = demo_archive" by code_simp
    from archive_after_staging_written_in_place [OF disc ne area stage run, of OSError] nu
    show ?thesis by (simp add: F)
  qed
  have second: "snd (run_backup demo_lib archive_fault_env demo_manager fs_after_init) = Inl OSError
   \<and> (\<exists>entries.
         node_at (fst (run_backup demo_lib archive_fault_env demo_manager fs_after_init)) demo_archive
           = Some (File (tar_bytes demo_lib entries False)))"
  proof -
    let ?e = archive_fault_env
    let ?fs1 = "fst (setup_staging_area ?e demo_manager fs_after_init)"
    let ?st = "stage_files demo_lib ?e demo_manager 0 ?fs1 demo_files []"
    let ?staged = "[Abs [''tmp'', ''my_backup_staging'', ''.ssh'', ''id_rsa.pub''],
                    Abs [''tmp'', ''my_backup_staging'', ''.ssh'', ''id_rsa''],
                    Abs [''tmp'', ''my_backup_staging'', ''.bash_history'']]"
    let ?c = "compress_files demo_lib ?e (archiver demo_manager) (fst ?st) ?staged
                demo_archive (staging_path demo_manager)"
    let ?run = "run_backup demo_lib ?e demo_manager fs_after_init"
    have disc: "discover_all_files demo_lib ?e fs_after_init (discoverer demo_manager) = Inr demo_files"
      by code_simp
    have ne: "demo_files \<noteq> []" by (simp add: demo_files_def)
    have "snd (setup_staging_area ?e demo_manager fs_after_init) = Inr (staging_path demo_manager)"
      by code_simp
    then have area: "setup_staging_area ?e demo_manager fs_after_init
        = (?fs1, Inr (staging_path demo_manager))" by (metis prod.collapse)
    have "snd ?st = Inr ?staged" by code_simp
    then have stage: "?st = (fst ?st, Inr ?staged)" by (metis prod.collapse)
    have run: "?run = (fst ?run, snd ?run)" by simp
    have F: "final_archive_path ?e demo_manager = demo_archive" by code_simp
    have w: "open_wb ?e (fst ?st) demo_archive = Inr (put_node (fst ?st) demo_archive (File []))"
      by code_simp
    have "snd ?c = Inl OSError" by code_simp
    then have c: "?c = (fst ?c, Inl OSError)" by (metis prod.collapse)
    from archive_after_staging_written_in_place [OF disc ne area stage run,
        of OSError ?staged "put_node (fst ?st) demo_archive (File [])" "fst ?c"] w c nu tgz
    show ?thesis by (simp add: F)
  qed
  from first second show ?thesis by simp
qed

text \<open>
  Claim C6 as stated fails: when the second staged file cannot be read back while the
  archive is written, the run fails and the final archive name, absent before the run,
  holds an unclosed archive with the first member only.
\<close>

theorem truncated_archive_under_final_name:
  "snd (run_backup demo_lib archive_fault_env demo_manager fs_after_init) = Inl OSError
   \<and> final_archive_path archive_fault_env demo_manager = demo_archive
   \<and> node_at fs_after_init demo_archive = None
   \<and> node_at (fst (run_backup demo_lib archive_fault_env demo_manager fs_after_init)) demo_archive
       = Some (File (tar_bytes demo_lib
            [(Rel [''.ssh'', ''id_rsa.pub''],
              os_urandom archive_fault_env 0 12 @
                aesgcm_encrypt demo_lib (key demo_key) (os_urandom archive_fault_env 0 12) [4, 5])]
            False))"
  by code_simp

end
